theory Spec2Isabelle
  imports Main "HOL-Library.Word" "HOL-Library.List_Lexorder" "HOL-Library.Product_Lexorder"
    "HOL-Library.Char_ord" "HOL-Library.AList"
begin

section \<open>Strings\<close>

text \<open>
  Identifiers, tool names and tool-call ids are only ever compared, so they are
  \<^typ>\<open>string\<close>. Free text (memory content, queries, message bodies) is inspected
  character by character by the source (regular expressions, \<open>slice\<close>, \<open>length\<close>), so
  it is a list of UTF-16 code units, as a JavaScript string is.
\<close>

type_synonym ustring = "16 word list"

section \<open>Conversation history (agent.ts, openrouter.ts)\<close>

datatype ChatRole = System | User | Assistant | Tool

record OpenRouterToolCall =
  tcId :: "string option"
  tcName :: string
  tcArguments :: ustring

record ChatMessage =
  role :: ChatRole
  msgContent :: ustring
  msgName :: "string option"
  toolCallId :: "string option"
  tool_call_id :: "string option"
  tool_calls :: "OpenRouterToolCall list option"

subsection \<open>Agent.trimHistory\<close>

definition isConversation :: "ChatMessage \<Rightarrow> bool" where
  "isConversation m = (role m = User \<or> role m = Assistant)"

text \<open>\<open>turns\<close>: half the number of user and assistant messages, rounded down.\<close>

definition turns :: "ChatMessage list \<Rightarrow> int" where
  "turns h = int (length (filter isConversation h)) div 2"

text \<open>The first loop: the index of the first message that is not a system message,
  0 when there is none.\<close>

fun firstNonSystemFrom :: "nat \<Rightarrow> ChatMessage list \<Rightarrow> nat" where
  "firstNonSystemFrom i [] = 0"
| "firstNonSystemFrom i (m # ms) =
     (if role m \<noteq> System then i else firstNonSystemFrom (Suc i) ms)"

definition firstNonSystemIdx :: "ChatMessage list \<Rightarrow> nat" where
  "firstNonSystemIdx h = firstNonSystemFrom 0 h"

text \<open>\<open>history.splice(i, 1)\<close>\<close>

definition splice1 :: "nat \<Rightarrow> 'a list \<Rightarrow> 'a list" where
  "splice1 i xs = take i xs @ drop (Suc i) xs"

text \<open>The removal loop, on the history, the index \<open>i\<close> and the counter \<open>removed\<close>.\<close>

function trimLoop :: "int \<Rightarrow> ChatMessage list \<Rightarrow> nat \<Rightarrow> int \<Rightarrow> ChatMessage list" where
  "trimLoop messagesToRemove h i removed =
     (if removed < messagesToRemove \<and> i < length h then
        (if role (h ! i) = User \<or> role (h ! i) = Assistant then
           trimLoop messagesToRemove (splice1 i h) i (removed + 1)
         else if role (h ! i) = Tool then
           trimLoop messagesToRemove (splice1 i h) i removed
         else trimLoop messagesToRemove h (Suc i) removed)
      else h)"
  by pat_completeness auto
termination
  by (relation "measure (\<lambda>(n, h, i, r). length h - i)") (auto simp: splice1_def)

declare trimLoop.simps [simp del]

definition trimHistory :: "int \<Rightarrow> ChatMessage list \<Rightarrow> ChatMessage list" where
  "trimHistory maxContextMessages h =
     (if turns h \<le> maxContextMessages then h
      else trimLoop ((turns h - maxContextMessages) * 2) h (firstNonSystemIdx h) 0)"

subsection \<open>Orphaned tool messages\<close>

text \<open>
  A tool message is orphaned when no assistant message before it in the history
  carries a tool call with the tool message's call id. \<open>orphans seen h\<close> lists the
  orphaned tool messages of \<open>h\<close>, given the call ids \<open>seen\<close> so far.
\<close>

definition callIds :: "ChatMessage \<Rightarrow> string option list" where
  "callIds m = (case tool_calls m of None \<Rightarrow> [] | Some tcs \<Rightarrow> map tcId tcs)"

fun orphans :: "string option list \<Rightarrow> ChatMessage list \<Rightarrow> ChatMessage list" where
  "orphans seen [] = []"
| "orphans seen (m # ms) =
     (if role m = Tool then
        (if toolCallId m \<in> set seen then orphans seen ms else m # orphans seen ms)
      else if role m = Assistant then orphans (seen @ callIds m) ms
      else orphans seen ms)"

subsection \<open>The messages that run pushes, and an example history\<close>

definition userMsg :: "ustring \<Rightarrow> ChatMessage" where
  "userMsg c = \<lparr>role = User, msgContent = c, msgName = None, toolCallId = None,
     tool_call_id = None, tool_calls = None\<rparr>"

definition assistantMsg :: "ustring \<Rightarrow> ChatMessage" where
  "assistantMsg c = \<lparr>role = Assistant, msgContent = c, msgName = None, toolCallId = None,
     tool_call_id = None, tool_calls = None\<rparr>"

definition systemMsg :: "ustring \<Rightarrow> ChatMessage" where
  "systemMsg c = \<lparr>role = System, msgContent = c, msgName = None, toolCallId = None,
     tool_call_id = None, tool_calls = None\<rparr>"

definition assistantCallMsg :: "ustring \<Rightarrow> OpenRouterToolCall list \<Rightarrow> ChatMessage" where
  "assistantCallMsg c tcs = \<lparr>role = Assistant, msgContent = c, msgName = None,
     toolCallId = None, tool_call_id = None, tool_calls = Some tcs\<rparr>"

definition toolMsg :: "ustring \<Rightarrow> string \<Rightarrow> string option \<Rightarrow> ChatMessage" where
  "toolMsg c n tid = \<lparr>role = Tool, msgContent = c, msgName = Some n, toolCallId = tid,
     tool_call_id = tid, tool_calls = None\<rparr>"

definition recallCall :: OpenRouterToolCall where
  "recallCall = \<lparr>tcId = Some ''call_1'', tcName = ''recall_memory'', tcArguments = []\<rparr>"

text \<open>A history as two calls of \<open>run\<close> leave it: a turn in which the model first asks
  for a tool and then answers, and a plain turn.\<close>

definition exampleHistory :: "ChatMessage list" where
  "exampleHistory =
     [userMsg [0x61],
      assistantCallMsg [] [recallCall],
      toolMsg [0x6F, 0x6B] ''recall_memory'' (Some ''call_1''),
      assistantMsg [0x62],
      userMsg [0x63],
      assistantMsg [0x64]]"

section \<open>Text primitives of the host language\<close>

text \<open>
  \<open>String.prototype.trim\<close> removes the white space and line terminators of ECMAScript
  from both ends.
\<close>

definition isWhiteSpace :: "16 word \<Rightarrow> bool" where
  "isWhiteSpace c =
     (c = 0x9 \<or> c = 0xA \<or> c = 0xB \<or> c = 0xC \<or> c = 0xD \<or> c = 0x20 \<or> c = 0xA0 \<or>
      c = 0x1680 \<or> (0x2000 \<le> c \<and> c \<le> 0x200A) \<or> c = 0x2028 \<or> c = 0x2029 \<or>
      c = 0x202F \<or> c = 0x205F \<or> c = 0x3000 \<or> c = 0xFEFF)"

definition trim :: "ustring \<Rightarrow> ustring" where
  "trim s = rev (dropWhile isWhiteSpace (rev (dropWhile isWhiteSpace s)))"

text \<open>The character classes of the source: U+4E00 to U+9FA5, and \<open>[a-zA-Z0-9]\<close>.\<close>

definition isCJK :: "16 word \<Rightarrow> bool" where
  "isCJK c = (0x4E00 \<le> c \<and> c \<le> 0x9FA5)"

definition isAlnum :: "16 word \<Rightarrow> bool" where
  "isAlnum c = ((0x61 \<le> c \<and> c \<le> 0x7A) \<or> (0x41 \<le> c \<and> c \<le> 0x5A) \<or> (0x30 \<le> c \<and> c \<le> 0x39))"

text \<open>\<open>s.includes(q)\<close>: \<open>q\<close> occurs in \<open>s\<close> as a contiguous run.\<close>

fun startsWith :: "'a list \<Rightarrow> 'a list \<Rightarrow> bool" where
  "startsWith s [] = True"
| "startsWith [] (q # qs) = False"
| "startsWith (c # cs) (q # qs) = (c = q \<and> startsWith cs qs)"

fun includesStr :: "'a list \<Rightarrow> 'a list \<Rightarrow> bool" where
  "includesStr [] q = (q = [])"
| "includesStr (c # cs) q = (startsWith (c # cs) q \<or> includesStr cs q)"

text \<open>\<open>xs.slice(0, n)\<close>: a negative \<open>n\<close> counts from the end.\<close>

definition slice0 :: "int \<Rightarrow> 'a list \<Rightarrow> 'a list" where
  "slice0 n xs = (if 0 \<le> n then take (nat n) xs else take (length xs - nat (- n)) xs)"

text \<open>\<open>[...new Set(xs)]\<close>: the first occurrence of every element, in order.\<close>

fun uniqueFrom :: "'a list \<Rightarrow> 'a list \<Rightarrow> 'a list" where
  "uniqueFrom seen [] = []"
| "uniqueFrom seen (x # xs) =
     (if x \<in> set seen then uniqueFrom seen xs else x # uniqueFrom (x # seen) xs)"

text \<open>\<open>n.toString(36)\<close> on an integer.\<close>

definition digit36 :: "nat \<Rightarrow> char" where
  "digit36 d = ''0123456789abcdefghijklmnopqrstuvwxyz'' ! d"

function toString36Nat :: "nat \<Rightarrow> string" where
  "toString36Nat n =
     (if n < 36 then [digit36 n] else toString36Nat (n div 36) @ [digit36 (n mod 36)])"
  by pat_completeness auto
termination
  by (relation "measure (\<lambda>n. n)") auto

declare toString36Nat.simps [simp del]

definition toString36 :: "int \<Rightarrow> string" where
  "toString36 n = (if n < 0 then CHR ''-'' # toString36Nat (nat (- n)) else toString36Nat (nat n))"

section \<open>Memory store (memory-store.ts)\<close>

subsection \<open>Records\<close>

text \<open>
  \<open>category\<close> has the type \<open>MemoryCategory\<close> in the source, a union of five string
  literals that is erased at run time; the tools receive it as untyped JSON, so it is a
  string here and \<open>validCategories\<close> (memory-tools.ts) lists the five members.
\<close>

record StoredMemory =
  memId :: string
  content :: ustring
  category :: string
  importance :: int
  keywords' :: "ustring list"
  createdAt :: int
  lastAccessedAt :: int
  accessCount :: int
  isValid :: int
  metadata :: "(string \<times> ustring) list option"

record MemorySearchResult =
  memory :: StoredMemory
  relevanceScore :: int

text \<open>
  What the code takes from its host: \<open>String.prototype.toLowerCase\<close>, the case mapping
  of Unicode, as a function on strings; \<open>Intl.Segmenter\<close> (absent in older browsers) as
  the list of segments of a text; and the Flexsearch index's \<open>search\<close> as a function of
  the documents added to the index, the query and the limit.
\<close>

record Platform =
  toLowerCase :: "ustring \<Rightarrow> ustring"
  segmenter :: "(ustring \<Rightarrow> ustring list) option"
  flexSearch :: "(string \<times> ustring) list \<Rightarrow> ustring \<Rightarrow> int \<Rightarrow> string list"

subsection \<open>chineseTokenizer\<close>

fun segmentTokens :: "Platform \<Rightarrow> ustring list \<Rightarrow> ustring list" where
  "segmentTokens P [] = []"
| "segmentTokens P (seg # segs) =
     (if 1 \<le> length (toLowerCase P (trim seg)) \<and>
         list_ex (\<lambda>c. isCJK c \<or> isAlnum c) (toLowerCase P (trim seg)) \<and>
         (list_ex isCJK (toLowerCase P (trim seg)) \<or> 2 \<le> length (toLowerCase P (trim seg)))
      then toLowerCase P (trim seg) # segmentTokens P segs
      else segmentTokens P segs)"

definition flush :: "Platform \<Rightarrow> ustring \<Rightarrow> ustring list" where
  "flush P englishBuffer =
     (if 2 \<le> length englishBuffer then [toLowerCase P englishBuffer] else [])"

fun fallbackTokens :: "Platform \<Rightarrow> ustring \<Rightarrow> ustring \<Rightarrow> ustring list" where
  "fallbackTokens P englishBuffer [] = flush P englishBuffer"
| "fallbackTokens P englishBuffer (c # cs) =
     (if isCJK c then flush P englishBuffer @ [c] # fallbackTokens P [] cs
      else if isAlnum c then fallbackTokens P (englishBuffer @ [c]) cs
      else flush P englishBuffer @ fallbackTokens P [] cs)"

definition chineseTokenizer :: "Platform \<Rightarrow> ustring \<Rightarrow> ustring list" where
  "chineseTokenizer P text =
     uniqueFrom []
       (case segmenter P of
          Some segment \<Rightarrow> segmentTokens P (segment text)
        | None \<Rightarrow> fallbackTokens P [] text)"

definition extractKeywords :: "Platform \<Rightarrow> ustring \<Rightarrow> ustring list" where
  "extractKeywords P c = chineseTokenizer P c"

subsection \<open>The IndexedDB object store and its indexes\<close>

text \<open>
  The object store \<open>memories\<close> maps a primary key (the record's \<open>id\<close>) to a record. An
  index cursor visits the records by index key, then by primary key; \<open>prev\<close> visits
  them in the reverse order.
\<close>

type_synonym ObjectStore = "(string \<times> StoredMemory) list"

definition idbGet :: "string \<Rightarrow> ObjectStore \<Rightarrow> StoredMemory option" where
  "idbGet k db = map_of db k"

definition idbPut :: "StoredMemory \<Rightarrow> ObjectStore \<Rightarrow> ObjectStore" where
  "idbPut m db = AList.update (memId m) m db"

text \<open>\<open>add\<close> fails when the key is taken.\<close>

definition idbAdd :: "StoredMemory \<Rightarrow> ObjectStore \<Rightarrow> ObjectStore option" where
  "idbAdd m db = (if map_of db (memId m) = None then Some (db @ [(memId m, m)]) else None)"

definition idbDelete :: "string \<Rightarrow> ObjectStore \<Rightarrow> ObjectStore" where
  "idbDelete k db = AList.delete k db"

definition cursorNext :: "(StoredMemory \<Rightarrow> 'k::linorder) \<Rightarrow> ObjectStore \<Rightarrow> StoredMemory list" where
  "cursorNext key db = map snd (sort_key (\<lambda>(k, m). (key m, k)) db)"

definition cursorPrev :: "(StoredMemory \<Rightarrow> 'k::linorder) \<Rightarrow> ObjectStore \<Rightarrow> StoredMemory list" where
  "cursorPrev key db = rev (cursorNext key db)"

text \<open>\<open>IDBKeyRange.only(v)\<close> on the index of \<open>key\<close>.\<close>

definition only :: "(StoredMemory \<Rightarrow> 'k) \<Rightarrow> 'k \<Rightarrow> ObjectStore \<Rightarrow> ObjectStore" where
  "only key v db = filter (\<lambda>(k, m). key m = v) db"

text \<open>The cursor loop shared by \<open>getByCategory\<close>, \<open>getMostImportant\<close> and \<open>getRecent\<close>.\<close>

fun collectValid :: "int \<Rightarrow> StoredMemory list \<Rightarrow> StoredMemory list \<Rightarrow> StoredMemory list" where
  "collectValid limit results [] = results"
| "collectValid limit results (m # cursor) =
     (if int (length results) < limit then
        collectValid limit (if isValid m = 1 then results @ [m] else results) cursor
      else results)"

subsection \<open>The store's state\<close>

text \<open>
  \<open>dbOpens\<close> says whether \<open>indexedDB.open\<close> succeeds (\<open>getDB\<close> caches the connection or the
  rejected promise); requests on an open database succeed, except \<open>add\<close> on a taken key.
  \<open>memories\<close> is the persistent object store. \<open>searchIndex\<close> is the Flexsearch index as
  the documents added to it and not removed since, \<open>indexedMemories\<close> the cache beside
  it. Operations run one after the other, so \<open>indexInitPromise\<close> has no counterpart.
\<close>

datatype StoreError = FailedToOpen | FailedToStore

record MemoryStore =
  dbOpens :: bool
  memories :: ObjectStore
  searchIndex :: "(string \<times> ustring) list option"
  indexedMemories :: "(string \<times> StoredMemory) list"
  indexInitialized :: bool

definition getDB :: "MemoryStore \<Rightarrow> StoreError + unit" where
  "getDB s = (if dbOpens s then Inr () else Inl FailedToOpen)"

definition validCursor :: "MemoryStore \<Rightarrow> StoredMemory list" where
  "validCursor s = cursorNext isValid (only isValid 1 (memories s))"

definition initSearchIndex :: "MemoryStore \<Rightarrow> StoreError + MemoryStore" where
  "initSearchIndex s =
     (if indexInitialized s then Inr s
      else if \<not> dbOpens s then Inl FailedToOpen
      else Inr (s\<lparr>searchIndex :=
                      Some (fold (\<lambda>m idx. AList.update (memId m) (content m) idx) (validCursor s) []),
                    indexedMemories :=
                      fold (\<lambda>m cache. AList.update (memId m) m cache) (validCursor s) [],
                    indexInitialized := True\<rparr>))"

definition addToSearchIndex :: "StoredMemory \<Rightarrow> MemoryStore \<Rightarrow> MemoryStore" where
  "addToSearchIndex m s =
     (case searchIndex s of
        Some idx \<Rightarrow>
          (if isValid m = 1 then
             s\<lparr>searchIndex := Some (AList.update (memId m) (content m) idx),
               indexedMemories := AList.update (memId m) m (indexedMemories s)\<rparr>
           else s)
      | None \<Rightarrow> s)"

definition removeFromSearchIndex :: "string \<Rightarrow> MemoryStore \<Rightarrow> MemoryStore" where
  "removeFromSearchIndex i s =
     (case searchIndex s of
        Some idx \<Rightarrow>
          s\<lparr>searchIndex := Some (AList.delete i idx),
            indexedMemories := AList.delete i (indexedMemories s)\<rparr>
      | None \<Rightarrow> s)"

text \<open>The readings \<open>store\<close> takes from the clock and the random source.\<close>

record StoreEnv =
  idTime :: int
  idRandom :: string
  createdTime :: int
  accessedTime :: int

definition generateId :: "StoreEnv \<Rightarrow> string" where
  "generateId env = ''mem_'' @ toString36 (idTime env) @ ''_'' @ idRandom env"

definition clampImportance :: "int \<Rightarrow> int" where
  "clampImportance i = max 1 (min 10 i)"

definition newMemory ::
  "Platform \<Rightarrow> StoreEnv \<Rightarrow> ustring \<Rightarrow> string \<Rightarrow> int option \<Rightarrow> (string \<times> ustring) list option
     \<Rightarrow> StoredMemory" where
  "newMemory P env c cat imp meta =
     \<lparr>memId = generateId env,
      content = c,
      category = cat,
      importance = clampImportance (case imp of None \<Rightarrow> 5 | Some i \<Rightarrow> i),
      keywords' = extractKeywords P c,
      createdAt = createdTime env,
      lastAccessedAt = accessedTime env,
      accessCount = 0,
      isValid = 1,
      metadata = meta\<rparr>"

text \<open>A rejected \<open>store\<close> comes with the store's state at the rejection (the index may
  have been initialized by then).\<close>

definition store ::
  "Platform \<Rightarrow> StoreEnv \<Rightarrow> MemoryStore \<Rightarrow> ustring \<Rightarrow> string \<Rightarrow> int option
     \<Rightarrow> (string \<times> ustring) list option
     \<Rightarrow> (StoreError \<times> MemoryStore) + (StoredMemory \<times> MemoryStore)" where
  "store P env s c cat imp meta =
     (case getDB s of
        Inl e \<Rightarrow> Inl (e, s)
      | Inr _ \<Rightarrow>
          (case initSearchIndex s of
             Inl e \<Rightarrow> Inl (e, s)
           | Inr s1 \<Rightarrow>
               (case idbAdd (newMemory P env c cat imp meta) (memories s1) of
                  None \<Rightarrow> Inl (FailedToStore, s1)
                | Some db \<Rightarrow>
                    Inr (newMemory P env c cat imp meta,
                         addToSearchIndex (newMemory P env c cat imp meta)
                           (s1\<lparr>memories := db\<rparr>)))))"

subsection \<open>search\<close>

text \<open>The recency bonus: \<open>Math.floor(7 - daysSinceAccess)\<close> when \<open>daysSinceAccess < 7\<close>,
  with \<open>daysSinceAccess = (now - lastAccessedAt) / 86400000\<close>.\<close>

definition recencyBonus :: "int \<Rightarrow> StoredMemory \<Rightarrow> int" where
  "recencyBonus now m =
     (if now - lastAccessedAt m < 7 * 86400000
      then 7 + (- (now - lastAccessedAt m)) div 86400000 else 0)"

definition relevance :: "Platform \<Rightarrow> int \<Rightarrow> ustring \<Rightarrow> nat \<Rightarrow> StoredMemory \<Rightarrow> int" where
  "relevance P now queryLower i m =
     100 - int i * 5
     + (if includesStr (toLowerCase P (content m)) queryLower then 30 else 0)
     + importance m * 3
     + recencyBonus now m"

fun scoreResults ::
  "Platform \<Rightarrow> int \<Rightarrow> ustring \<Rightarrow> (string \<times> StoredMemory) list \<Rightarrow> nat \<Rightarrow> string list
     \<Rightarrow> MemorySearchResult list" where
  "scoreResults P now queryLower cache i [] = []"
| "scoreResults P now queryLower cache i (memoryId # rest) =
     (case map_of cache memoryId of
        Some m \<Rightarrow>
          (if isValid m = 1 then
             \<lparr>memory = m, relevanceScore = relevance P now queryLower i m\<rparr>
               # scoreResults P now queryLower cache (Suc i) rest
           else scoreResults P now queryLower cache (Suc i) rest)
      | None \<Rightarrow> scoreResults P now queryLower cache (Suc i) rest)"

definition search ::
  "Platform \<Rightarrow> int \<Rightarrow> MemoryStore \<Rightarrow> ustring \<Rightarrow> int
     \<Rightarrow> StoreError + (MemorySearchResult list \<times> MemoryStore)" where
  "search P now s query limit =
     (case initSearchIndex s of
        Inl e \<Rightarrow> Inl e
      | Inr s1 \<Rightarrow>
          (case searchIndex s1 of
             None \<Rightarrow> Inr ([], s1)
           | Some idx \<Rightarrow>
               (if trim query = [] then Inr ([], s1)
                else Inr (slice0 limit
                            (sort_key (\<lambda>r. - relevanceScore r)
                               (scoreResults P now (toLowerCase P query) (indexedMemories s1) 0
                                  (flexSearch P idx query (limit * 2)))),
                          s1))))"

subsection \<open>Listings, count and lookup\<close>

definition getByCategory :: "MemoryStore \<Rightarrow> string \<Rightarrow> int \<Rightarrow> StoreError + StoredMemory list" where
  "getByCategory s cat limit =
     (case getDB s of
        Inl e \<Rightarrow> Inl e
      | Inr _ \<Rightarrow> Inr (collectValid limit [] (cursorPrev category (only category cat (memories s)))))"

definition getMostImportant :: "MemoryStore \<Rightarrow> int \<Rightarrow> StoreError + StoredMemory list" where
  "getMostImportant s limit =
     (case getDB s of
        Inl e \<Rightarrow> Inl e
      | Inr _ \<Rightarrow> Inr (collectValid limit [] (cursorPrev importance (memories s))))"

definition getRecent :: "MemoryStore \<Rightarrow> int \<Rightarrow> StoreError + StoredMemory list" where
  "getRecent s limit =
     (case getDB s of
        Inl e \<Rightarrow> Inl e
      | Inr _ \<Rightarrow> Inr (collectValid limit [] (cursorPrev createdAt (memories s))))"

definition getCount :: "MemoryStore \<Rightarrow> StoreError + int" where
  "getCount s =
     (case getDB s of
        Inl e \<Rightarrow> Inl e
      | Inr _ \<Rightarrow> Inr (int (length (only isValid 1 (memories s)))))"

definition getById :: "MemoryStore \<Rightarrow> string \<Rightarrow> StoreError + StoredMemory option" where
  "getById s i =
     (case getDB s of
        Inl e \<Rightarrow> Inl e
      | Inr _ \<Rightarrow> Inr (idbGet i (memories s)))"

subsection \<open>recordAccess, invalidate, delete, update\<close>

definition recordAccess :: "int \<Rightarrow> MemoryStore \<Rightarrow> string \<Rightarrow> StoreError + MemoryStore" where
  "recordAccess now s i =
     (case getDB s of
        Inl e \<Rightarrow> Inl e
      | Inr _ \<Rightarrow>
          (case idbGet i (memories s) of
             None \<Rightarrow> Inr s
           | Some m \<Rightarrow>
               Inr (s\<lparr>memories :=
                        idbPut (m\<lparr>lastAccessedAt := now, accessCount := accessCount m + 1\<rparr>)
                          (memories s),
                      indexedMemories :=
                        (if map_of (indexedMemories s) i \<noteq> None
                         then AList.update i
                                (m\<lparr>lastAccessedAt := now, accessCount := accessCount m + 1\<rparr>)
                                (indexedMemories s)
                         else indexedMemories s)\<rparr>)))"

definition invalidate :: "MemoryStore \<Rightarrow> string \<Rightarrow> StoreError + MemoryStore" where
  "invalidate s i =
     (case getDB s of
        Inl e \<Rightarrow> Inl e
      | Inr _ \<Rightarrow>
          (case idbGet i (memories s) of
             None \<Rightarrow> Inr s
           | Some m \<Rightarrow>
               Inr (removeFromSearchIndex i
                      (s\<lparr>memories := idbPut (m\<lparr>isValid := 0\<rparr>) (memories s)\<rparr>))))"

definition delete :: "MemoryStore \<Rightarrow> string \<Rightarrow> StoreError + MemoryStore" where
  "delete s i =
     (case getDB s of
        Inl e \<Rightarrow> Inl e
      | Inr _ \<Rightarrow> Inr (removeFromSearchIndex i (s\<lparr>memories := idbDelete i (memories s)\<rparr>)))"

record Updates =
  updContent :: "ustring option"
  updImportance :: "int option"
  updCategory :: "string option"
  updIsValid :: "int option"

definition applyUpdates :: "Platform \<Rightarrow> Updates \<Rightarrow> StoredMemory \<Rightarrow> StoredMemory" where
  "applyUpdates P u m =
     (case updIsValid u of None \<Rightarrow> (\<lambda>x. x) | Some v \<Rightarrow> (\<lambda>x. x\<lparr>isValid := v\<rparr>))
     ((case updCategory u of None \<Rightarrow> (\<lambda>x. x) | Some c \<Rightarrow> (\<lambda>x. x\<lparr>category := c\<rparr>))
     ((case updImportance u of None \<Rightarrow> (\<lambda>x. x)
        | Some i \<Rightarrow> (\<lambda>x. x\<lparr>importance := clampImportance i\<rparr>))
     ((case updContent u of None \<Rightarrow> (\<lambda>x. x)
        | Some c \<Rightarrow> (\<lambda>x. x\<lparr>content := c, keywords' := extractKeywords P c\<rparr>)) m)))"

definition contentChanged :: "Updates \<Rightarrow> StoredMemory \<Rightarrow> bool" where
  "contentChanged u m = (case updContent u of None \<Rightarrow> False | Some c \<Rightarrow> c \<noteq> content m)"

definition updateIndex :: "bool \<Rightarrow> string \<Rightarrow> StoredMemory \<Rightarrow> MemoryStore \<Rightarrow> MemoryStore" where
  "updateIndex changed i m s =
     (case searchIndex s of
        Some idx \<Rightarrow>
          (if changed then
             s\<lparr>searchIndex :=
                 Some (if isValid m = 1 then AList.update i (content m) (AList.delete i idx)
                       else AList.delete i idx)\<rparr>
           else s)
      | None \<Rightarrow> s)"

definition updateCache :: "string \<Rightarrow> StoredMemory \<Rightarrow> MemoryStore \<Rightarrow> MemoryStore" where
  "updateCache i m s =
     s\<lparr>indexedMemories :=
         (if isValid m = 1 then AList.update i m (indexedMemories s)
          else AList.delete i (indexedMemories s))\<rparr>"

definition update ::
  "Platform \<Rightarrow> MemoryStore \<Rightarrow> string \<Rightarrow> Updates \<Rightarrow> StoreError + (StoredMemory option \<times> MemoryStore)" where
  "update P s i u =
     (case getDB s of
        Inl e \<Rightarrow> Inl e
      | Inr _ \<Rightarrow>
          (case idbGet i (memories s) of
             None \<Rightarrow> Inr (None, s)
           | Some m \<Rightarrow>
               Inr (Some (applyUpdates P u m),
                    updateCache i (applyUpdates P u m)
                      (updateIndex (contentChanged u m) i (applyUpdates P u m)
                         (s\<lparr>memories := idbPut (applyUpdates P u m) (memories s)\<rparr>)))))"

subsection \<open>clearAll, rebuildSearchIndex, close\<close>

definition clearAll :: "MemoryStore \<Rightarrow> StoreError + MemoryStore" where
  "clearAll s =
     (case getDB s of
        Inl e \<Rightarrow> Inl e
      | Inr _ \<Rightarrow> Inr (s\<lparr>memories := [], searchIndex := Some [], indexedMemories := []\<rparr>))"

definition rebuildSearchIndex :: "MemoryStore \<Rightarrow> StoreError + MemoryStore" where
  "rebuildSearchIndex s =
     initSearchIndex (s\<lparr>indexInitialized := False, searchIndex := None, indexedMemories := []\<rparr>)"

definition close :: "MemoryStore \<Rightarrow> MemoryStore" where
  "close s = s\<lparr>searchIndex := None, indexedMemories := [], indexInitialized := False\<rparr>"

section \<open>Memory tools (memory-tools.ts)\<close>

text \<open>
  A tool returns a result and leaves the store in a new state. A memory tool's result
  has a name, an output and a message (no memory entry, no call id of its own). The
  output objects are a datatype, one constructor per shape; the user-visible messages
  are kept as the template and the values put into it. \<open>errorMessage\<close> is the prefix of
  the message of the \<open>Error\<close> a store operation rejects with.
\<close>

datatype CleanupReason = DuplicateContent | OutdatedRarelyAccessed | LowImportanceContext

record RemovalItem =
  itemId :: string
  itemReason :: CleanupReason
  itemContent :: ustring

record FormattedMemory =
  fmId :: string
  fmContent :: ustring
  fmCategory :: string
  fmImportance :: int
  fmCreatedAt :: int

datatype ToolOutput =
    OutFailure string
  | OutStored string string int
  | OutRecalled "FormattedMemory list" nat
  | OutCleanup nat bool "RemovalItem list"

datatype ToolMessage =
    MsgStoreMissing | MsgStoreInvalidCategory | MsgStored ustring bool | MsgStoreFailed
  | MsgRecallMissingQuery | MsgRecallNone | MsgRecallFound nat | MsgRecallFailed
  | MsgCleanupFound nat "RemovalItem list" | MsgCleanupDone nat "RemovalItem list"
  | MsgCleanupFailed

record MemoryToolResult =
  resultName :: string
  output' :: ToolOutput
  message :: ToolMessage

definition errorMessage :: "StoreError \<Rightarrow> string" where
  "errorMessage e =
     (case e of FailedToOpen \<Rightarrow> ''Failed to open IndexedDB'' | FailedToStore \<Rightarrow> ''Failed to store memory'')"

definition validCategories :: "string list" where
  "validCategories = [''fact'', ''preference'', ''event'', ''correction'', ''context'']"

subsection \<open>store_memory\<close>

record StoreMemoryArgs =
  argContent :: "ustring option"
  argCategory :: "string option"
  argImportance :: "int option"
  argReason :: "ustring option"

text \<open>\<open>!x\<close> on an optional string: absent or empty.\<close>

definition missing :: "'a list option \<Rightarrow> bool" where
  "missing x = (case x of None \<Rightarrow> True | Some v \<Rightarrow> v = [])"

definition storeMemoryTool ::
  "Platform \<Rightarrow> StoreEnv \<Rightarrow> MemoryStore \<Rightarrow> StoreMemoryArgs \<Rightarrow> MemoryToolResult \<times> MemoryStore" where
  "storeMemoryTool P env s args =
     (if missing (argContent args) \<or> missing (argCategory args) then
        (\<lparr>resultName = ''store_memory'',
          output' = OutFailure ''Missing required parameters: content and category'',
          message = MsgStoreMissing\<rparr>, s)
      else if the (argCategory args) \<notin> set validCategories then
        (\<lparr>resultName = ''store_memory'',
          output' = OutFailure
            ''Invalid category. Must be one of: fact, preference, event, correction, context'',
          message = MsgStoreInvalidCategory\<rparr>, s)
      else
        (case store P env s (the (argContent args)) (the (argCategory args))
                (Some (case argImportance args of None \<Rightarrow> 5 | Some i \<Rightarrow> i))
                (Some (case argReason args of None \<Rightarrow> [] | Some r \<Rightarrow> [(''reason'', r)])) of
           Inr (m, s') \<Rightarrow>
             (\<lparr>resultName = ''store_memory'',
               output' = OutStored (memId m) (category m) (importance m),
               message = MsgStored (take 50 (the (argContent args)))
                           (50 < length (the (argContent args)))\<rparr>, s')
         | Inl (e, s') \<Rightarrow>
             (\<lparr>resultName = ''store_memory'', output' = OutFailure (errorMessage e),
               message = MsgStoreFailed\<rparr>, s')))"

subsection \<open>recall_memory\<close>

text \<open>\<open>argFilter\<close> is the \<open>category\<close> argument of \<open>recall_memory\<close>.\<close>

record RecallMemoryArgs =
  argQuery :: "ustring option"
  argLimit :: "int option"
  argFilter :: "string option"

text \<open>\<open>Promise.all(memories.map(m => memoryStore.recordAccess(m.id)))\<close>, one access after
  the other; the first rejection is the one that is caught.\<close>

fun recordAccesses :: "int \<Rightarrow> MemoryStore \<Rightarrow> StoredMemory list \<Rightarrow> StoreError option \<times> MemoryStore" where
  "recordAccesses now s [] = (None, s)"
| "recordAccesses now s (m # ms) =
     (case recordAccess now s (memId m) of
        Inl e \<Rightarrow> (Some e, s)
      | Inr s' \<Rightarrow> recordAccesses now s' ms)"

text \<open>\<open>new Date(t).toISOString()\<close> throws a \<open>RangeError\<close> outside the range of dates; the
  formatted record keeps the instant itself.\<close>

definition validDate :: "int \<Rightarrow> bool" where
  "validDate t = (- 8640000000000000 \<le> t \<and> t \<le> 8640000000000000)"

definition formatMemory :: "StoredMemory \<Rightarrow> FormattedMemory" where
  "formatMemory m =
     \<lparr>fmId = memId m, fmContent = content m, fmCategory = category m,
      fmImportance = importance m, fmCreatedAt = createdAt m\<rparr>"

definition recallFailure :: "string \<Rightarrow> MemoryToolResult" where
  "recallFailure err =
     \<lparr>resultName = ''recall_memory'', output' = OutFailure err, message = MsgRecallFailed\<rparr>"

definition recallResult :: "StoredMemory list \<Rightarrow> MemoryToolResult" where
  "recallResult ms =
     (if ms = [] then
        \<lparr>resultName = ''recall_memory'', output' = OutRecalled [] 0, message = MsgRecallNone\<rparr>
      else if list_all (\<lambda>m. validDate (createdAt m)) ms then
        \<lparr>resultName = ''recall_memory'', output' = OutRecalled (map formatMemory ms) (length ms),
         message = MsgRecallFound (length ms)\<rparr>
      else recallFailure ''Invalid time value'')"

definition recallFound ::
  "int \<Rightarrow> MemoryStore \<Rightarrow> StoredMemory list \<Rightarrow> MemoryToolResult \<times> MemoryStore" where
  "recallFound now s ms =
     (case recordAccesses now s ms of
        (Some e, s') \<Rightarrow> (recallFailure (errorMessage e), s')
      | (None, s') \<Rightarrow> (recallResult ms, s'))"

definition recallMemoryTool ::
  "Platform \<Rightarrow> int \<Rightarrow> MemoryStore \<Rightarrow> RecallMemoryArgs \<Rightarrow> MemoryToolResult \<times> MemoryStore" where
  "recallMemoryTool P now s args =
     (if missing (argQuery args) then
        (\<lparr>resultName = ''recall_memory'',
          output' = OutFailure ''Missing required parameter: query'',
          message = MsgRecallMissingQuery\<rparr>, s)
      else if \<not> missing (argFilter args) then
        (case getByCategory s (the (argFilter args)) 50 of
           Inl e \<Rightarrow> (recallFailure (errorMessage e), s)
         | Inr categoryMemories \<Rightarrow>
             recallFound now s
               (slice0 (case argLimit args of None \<Rightarrow> 5 | Some l \<Rightarrow> l)
                  (filter (\<lambda>m. includesStr (toLowerCase P (content m))
                                  (toLowerCase P (the (argQuery args))))
                     categoryMemories)))
      else
        (case search P now s (the (argQuery args)) (case argLimit args of None \<Rightarrow> 5 | Some l \<Rightarrow> l) of
           Inl e \<Rightarrow> (recallFailure (errorMessage e), s)
         | Inr (results, s1) \<Rightarrow> recallFound now s1 (map memory results)))"

subsection \<open>cleanup_memories\<close>

record CleanupMemoriesArgs =
  argStrategy :: "string option"
  argDryRun :: "bool option"

definition normalizeContent :: "Platform \<Rightarrow> ustring \<Rightarrow> ustring" where
  "normalizeContent P c = take 50 (filter (\<lambda>u. isCJK u \<or> isAlnum u) (toLowerCase P c))"

text \<open>\<open>contentMap\<close>: the records grouped by normalized content, groups and members in
  the order met.\<close>

definition addToGroup ::
  "Platform \<Rightarrow> StoredMemory \<Rightarrow> (ustring \<times> StoredMemory list) list
     \<Rightarrow> (ustring \<times> StoredMemory list) list" where
  "addToGroup P m cm =
     AList.update (normalizeContent P (content m))
       ((case map_of cm (normalizeContent P (content m)) of None \<Rightarrow> [] | Some g \<Rightarrow> g) @ [m]) cm"

definition contentMap :: "Platform \<Rightarrow> StoredMemory list \<Rightarrow> (ustring \<times> StoredMemory list) list" where
  "contentMap P allMemories = fold (addToGroup P) allMemories []"

definition removalItem :: "CleanupReason \<Rightarrow> StoredMemory \<Rightarrow> RemovalItem" where
  "removalItem why m = \<lparr>itemId = memId m, itemReason = why, itemContent = take 30 (content m)\<rparr>"

text \<open>A group of more than one record: sorted by importance, highest first (the sort is
  stable), all but the first are marked.\<close>

definition markGroup :: "StoredMemory list \<Rightarrow> RemovalItem list" where
  "markGroup g =
     (if 1 < length g
      then map (removalItem DuplicateContent) (tl (sort_key (\<lambda>m. - importance m) g))
      else [])"

definition findDuplicates :: "Platform \<Rightarrow> StoredMemory list \<Rightarrow> RemovalItem list" where
  "findDuplicates P allMemories = concat (map (\<lambda>(k, g). markGroup g) (contentMap P allMemories))"

definition isOutdated :: "int \<Rightarrow> StoredMemory \<Rightarrow> bool" where
  "isOutdated now m =
     (createdAt m < now - 30 * 24 * 60 * 60 * 1000 \<and> accessCount m < 3 \<and> importance m \<le> 4 \<and>
      category m \<noteq> ''fact'')"

definition isLowImportance :: "StoredMemory \<Rightarrow> bool" where
  "isLowImportance m = (importance m \<le> 2 \<and> accessCount m < 2 \<and> category m = ''context'')"

text \<open>The second and third loops: a record already in \<open>toRemove\<close> is skipped.\<close>

fun findMore ::
  "(StoredMemory \<Rightarrow> bool) \<Rightarrow> CleanupReason \<Rightarrow> StoredMemory list \<Rightarrow> RemovalItem list
     \<Rightarrow> RemovalItem list" where
  "findMore test why [] toRemove = toRemove"
| "findMore test why (m # ms) toRemove =
     (if list_ex (\<lambda>r. itemId r = memId m) toRemove then findMore test why ms toRemove
      else if test m then findMore test why ms (toRemove @ [removalItem why m])
      else findMore test why ms toRemove)"

definition flagged :: "Platform \<Rightarrow> string \<Rightarrow> int \<Rightarrow> StoredMemory list \<Rightarrow> RemovalItem list" where
  "flagged P strategy now allMemories =
     (if strategy = ''low_importance'' \<or> strategy = ''all''
      then findMore isLowImportance LowImportanceContext allMemories else (\<lambda>r. r))
     ((if strategy = ''outdated'' \<or> strategy = ''all''
       then findMore (isOutdated now) OutdatedRarelyAccessed allMemories else (\<lambda>r. r))
      (if strategy = ''duplicates'' \<or> strategy = ''all''
       then findDuplicates P allMemories else []))"

fun invalidateAll :: "MemoryStore \<Rightarrow> RemovalItem list \<Rightarrow> StoreError option \<times> MemoryStore" where
  "invalidateAll s [] = (None, s)"
| "invalidateAll s (item # items) =
     (case invalidate s (itemId item) of
        Inl e \<Rightarrow> (Some e, s)
      | Inr s' \<Rightarrow> invalidateAll s' items)"

definition cleanupFailure :: "StoreError \<Rightarrow> MemoryToolResult" where
  "cleanupFailure e =
     \<lparr>resultName = ''cleanup_memories'', output' = OutFailure (errorMessage e),
      message = MsgCleanupFailed\<rparr>"

definition cleanupResult :: "bool \<Rightarrow> RemovalItem list \<Rightarrow> MemoryToolResult" where
  "cleanupResult dryRun toRemove =
     \<lparr>resultName = ''cleanup_memories'', output' = OutCleanup (length toRemove) dryRun toRemove,
      message = (if dryRun then MsgCleanupFound (length toRemove) toRemove
                 else MsgCleanupDone (length toRemove) toRemove)\<rparr>"

definition cleanupMemoriesTool ::
  "Platform \<Rightarrow> int \<Rightarrow> MemoryStore \<Rightarrow> CleanupMemoriesArgs \<Rightarrow> MemoryToolResult \<times> MemoryStore" where
  "cleanupMemoriesTool P now s args =
     (case getRecent s 100 of
        Inl e \<Rightarrow> (cleanupFailure e, s)
      | Inr allMemories \<Rightarrow>
          (if \<not> (case argDryRun args of None \<Rightarrow> False | Some d \<Rightarrow> d) \<and>
              flagged P (case argStrategy args of None \<Rightarrow> ''all'' | Some st \<Rightarrow> st) now allMemories \<noteq> []
           then
             (case invalidateAll s
                     (flagged P (case argStrategy args of None \<Rightarrow> ''all'' | Some st \<Rightarrow> st) now
                        allMemories) of
                (Some e, s') \<Rightarrow> (cleanupFailure e, s')
              | (None, s') \<Rightarrow>
                  (cleanupResult (case argDryRun args of None \<Rightarrow> False | Some d \<Rightarrow> d)
                     (flagged P (case argStrategy args of None \<Rightarrow> ''all'' | Some st \<Rightarrow> st) now
                        allMemories), s'))
           else
             (cleanupResult (case argDryRun args of None \<Rightarrow> False | Some d \<Rightarrow> d)
                (flagged P (case argStrategy args of None \<Rightarrow> ''all'' | Some st \<Rightarrow> st) now
                   allMemories), s)))"

subsection \<open>Consistency of a store\<close>

text \<open>
  What every operation keeps true of the store, from a fresh session on: primary keys
  are unique and are the records' ids; and while a search index exists, every cached
  record is the valid record the database holds under that key, and every indexed
  document is the content of a record of the database, once per key.
\<close>

definition indexEntryOk :: "ObjectStore \<Rightarrow> string \<times> ustring \<Rightarrow> bool" where
  "indexEntryOk db e = (case map_of db (fst e) of None \<Rightarrow> False | Some m \<Rightarrow> content m = snd e)"

definition cacheEntryOk :: "ObjectStore \<Rightarrow> string \<times> StoredMemory \<Rightarrow> bool" where
  "cacheEntryOk db e = (map_of db (fst e) = Some (snd e) \<and> isValid (snd e) = 1)"

definition keyIsId :: "string \<times> StoredMemory \<Rightarrow> bool" where
  "keyIsId e = (memId (snd e) = fst e)"

definition storeInv :: "MemoryStore \<Rightarrow> bool" where
  "storeInv s =
     (distinct (map fst (memories s)) \<and>
      list_all keyIsId (memories s) \<and>
      (case searchIndex s of
         None \<Rightarrow> True
       | Some idx \<Rightarrow>
           list_all (cacheEntryOk (memories s)) (indexedMemories s) \<and>
           distinct (map fst (indexedMemories s)) \<and>
           list_all (indexEntryOk (memories s)) idx \<and>
           distinct (map fst idx)))"

text \<open>A session starts with whatever the database holds, no index and an empty cache.\<close>

definition freshSession :: "bool \<Rightarrow> ObjectStore \<Rightarrow> MemoryStore" where
  "freshSession opens db =
     \<lparr>dbOpens = opens, memories = db, searchIndex = None, indexedMemories = [],
      indexInitialized = False\<rparr>"

subsection \<open>Example platform and readings\<close>

text \<open>
  For the examples: the case mapping restricted to the letters A to Z (the examples
  hold no other cased letter), a browser without \<open>Intl.Segmenter\<close>, and a search that
  returns the keys of the indexed documents containing the query, in index order.
\<close>

definition lowerUnit :: "16 word \<Rightarrow> 16 word" where
  "lowerUnit c = (if 0x41 \<le> c \<and> c \<le> 0x5A then c + 0x20 else c)"

definition asciiLowerCase :: "ustring \<Rightarrow> ustring" where
  "asciiLowerCase s = map lowerUnit s"

definition substringSearch :: "(string \<times> ustring) list \<Rightarrow> ustring \<Rightarrow> int \<Rightarrow> string list" where
  "substringSearch idx query limit =
     slice0 limit
       (map fst (filter (\<lambda>(k, c). includesStr (asciiLowerCase c) (asciiLowerCase (trim query))) idx))"

definition examplePlatform :: Platform where
  "examplePlatform =
     \<lparr>toLowerCase = asciiLowerCase, segmenter = None, flexSearch = substringSearch\<rparr>"

definition envAt :: "int \<Rightarrow> string \<Rightarrow> StoreEnv" where
  "envAt t r = \<lparr>idTime = t, idRandom = r, createdTime = t, accessedTime = t\<rparr>"

subsection \<open>Example store\<close>

text \<open>The record that \<open>store\<close> creates for the content \<open>cat\<close> in an empty store, and
  the store after it.\<close>

definition catMemory :: StoredMemory where
  "catMemory =
     \<lparr>memId = ''mem_rs_abc123'', content = [0x63, 0x61, 0x74], category = ''fact'',
      importance = 7, keywords' = [[0x63, 0x61, 0x74]], createdAt = 1000,
      lastAccessedAt = 1000, accessCount = 0, isValid = 1, metadata = None\<rparr>"

definition catStore :: MemoryStore where
  "catStore =
     \<lparr>dbOpens = True, memories = [(''mem_rs_abc123'', catMemory)],
      searchIndex = Some [(''mem_rs_abc123'', [0x63, 0x61, 0x74])],
      indexedMemories = [(''mem_rs_abc123'', catMemory)], indexInitialized = True\<rparr>"

text \<open>The same store after \<open>invalidate\<close> of the record.\<close>

definition forgottenStore :: MemoryStore where
  "forgottenStore =
     \<lparr>dbOpens = True, memories = [(''mem_rs_abc123'', catMemory\<lparr>isValid := 0\<rparr>)],
      searchIndex = Some [], indexedMemories = [], indexInitialized = True\<rparr>"




text \<open>\<open>flagInvalid ids db\<close>: the object store \<open>db\<close> with the validity flag of the
  records under the keys \<open>ids\<close> set to 0, everything else as it is.\<close>

definition flagInvalid :: "string set \<Rightarrow> ObjectStore \<Rightarrow> ObjectStore" where
  "flagInvalid ids db = map (\<lambda>(k, m). if k \<in> ids then (k, m\<lparr>isValid := 0\<rparr>) else (k, m)) db"

subsection \<open>Example: three records with the same normalized content\<close>

text \<open>The contents are U+559C U+6B22 U+732B, the same followed by \<open>!\<close>, and the same followed
  by a space. \<open>likesStore ms\<close> is an initialized store holding the records \<open>ms\<close>.\<close>

definition likesCats :: ustring where
  "likesCats = [0x559C, 0x6B22, 0x732B]"

definition likes1 :: StoredMemory where
  "likes1 =
     \<lparr>memId = ''mem_rs_aaaaaa'', content = likesCats, category = ''preference'',
      importance = 5, keywords' = [[0x559C], [0x6B22], [0x732B]], createdAt = 1000,
      lastAccessedAt = 1000, accessCount = 0, isValid = 1, metadata = None\<rparr>"

definition likes2 :: StoredMemory where
  "likes2 =
     \<lparr>memId = ''mem_1jk_bbbbbb'', content = likesCats @ [0x21], category = ''preference'',
      importance = 9, keywords' = [[0x559C], [0x6B22], [0x732B]], createdAt = 2000,
      lastAccessedAt = 2000, accessCount = 0, isValid = 1, metadata = None\<rparr>"

definition likes3 :: StoredMemory where
  "likes3 =
     \<lparr>memId = ''mem_2bc_cccccc'', content = likesCats @ [0x20], category = ''preference'',
      importance = 3, keywords' = [[0x559C], [0x6B22], [0x732B]], createdAt = 3000,
      lastAccessedAt = 3000, accessCount = 0, isValid = 1, metadata = None\<rparr>"

definition likesStore :: "StoredMemory list \<Rightarrow> MemoryStore" where
  "likesStore ms =
     \<lparr>dbOpens = True, memories = map (\<lambda>m. (memId m, m)) ms,
      searchIndex = Some (map (\<lambda>m. (memId m, content m)) (filter (\<lambda>m. isValid m = 1) ms)),
      indexedMemories = map (\<lambda>m. (memId m, m)) (filter (\<lambda>m. isValid m = 1) ms),
      indexInitialized = True\<rparr>"

definition catMood :: RecallMemoryArgs where
  "catMood = \<lparr>argQuery = Some [0x63, 0x61, 0x74], argLimit = None, argFilter = Some ''mood''\<rparr>"

definition storeMood :: StoreMemoryArgs where
  "storeMood = \<lparr>argContent = Some [0x63, 0x61, 0x74], argCategory = Some ''mood'',
     argImportance = None, argReason = None\<rparr>"

section \<open>Agent (agent.ts)\<close>

subsection \<open>formatMemoriesForPrompt (memory-tools.ts)\<close>

definition ofString :: "string \<Rightarrow> ustring" where
  "ofString s = map (\<lambda>c. of_nat (of_char c)) s"

text \<open>The category labels, as code units; a category outside the five gives
  \<open>undefined\<close>.\<close>

definition categoryLabel :: "string \<Rightarrow> ustring" where
  "categoryLabel cat =
     (if cat = ''fact'' then [0x4E8B, 0x5B9E]
      else if cat = ''preference'' then [0x504F, 0x597D]
      else if cat = ''event'' then [0x4E8B, 0x4EF6]
      else if cat = ''correction'' then [0x7EA0, 0x6B63]
      else if cat = ''context'' then [0x80CC, 0x666F]
      else ofString ''undefined'')"

text \<open>\<open>lines.join(sep)\<close>\<close>

fun joinWith :: "ustring \<Rightarrow> ustring list \<Rightarrow> ustring" where
  "joinWith sep [] = []"
| "joinWith sep [x] = x"
| "joinWith sep (x # y # ys) = x @ sep @ joinWith sep (y # ys)"

definition formatMemoriesForPrompt :: "StoredMemory list \<Rightarrow> ustring" where
  "formatMemoriesForPrompt ms =
     (if ms = [] then []
      else [0xA, 0x3010, 0x957F, 0x671F, 0x8BB0, 0x5FC6, 0x3011, 0xA]
           @ joinWith [0xA]
               (map (\<lambda>m. [0x2D, 0x20, 0x5B] @ categoryLabel (category m) @ [0x5D, 0x20] @ content m) ms)
           @ [0xA])"

subsection \<open>Types\<close>

datatype EntryRole = EntrySystem | EntryUser | EntryAssistant | EntryTool | EntryMemory

text \<open>A memory-log entry as \<open>addMemory\<close> receives it: the timestamp may be missing.\<close>

record MemoryEntryInput =
  entryRole :: EntryRole
  entryContent :: ustring
  entryTimestamp :: "int option"
  entryMetadata :: "(string \<times> ustring) list option"

record MemoryEntry =
  logRole :: EntryRole
  logContent :: ustring
  logTimestamp :: int
  logMetadata :: "(string \<times> ustring) list option"

text \<open>
  A tool's arguments are the parsed JSON of the call (\<open>'a\<close>), the empty object when the
  call carries no argument text, or the parse-error object holding the raw text. A
  tool's output is of a type \<open>'o\<close> the agent does not look into, except to tell an
  object from another value.
\<close>

datatype 'a ToolArgs = ParsedArgs 'a | EmptyArgs | ParseErrorArgs ustring

datatype 'o NormalizedOutput = SuccessWith 'o | SuccessResult 'o | FailureOutput ustring

record 'o ToolResult =
  trName :: "string option"
  trOutput :: 'o
  trMessage :: "ustring option"
  trMemoryEntry :: "MemoryEntryInput option"
  trToolCallId :: "string option"

record 'a ToolCallRequest =
  reqId :: "string option"
  reqName :: string
  reqArguments :: "'a ToolArgs"

text \<open>
  \<open>execute\<close> of a tool, on the arguments, the memory log it can read and the world it
  acts on (the memory store, for the memory tools): what it returns or the message of
  what it throws, the entries it passes to \<open>addMemory\<close>, and the world afterwards. The
  description and the parameter schema of a tool only go into the request to the model.
\<close>

record ('a, 'o, 'w) Tool =
  toolName :: string
  execute :: "'a ToolArgs \<Rightarrow> MemoryEntry list \<Rightarrow> 'w
                \<Rightarrow> (ustring + 'o ToolResult) \<times> MemoryEntryInput list \<times> 'w"

text \<open>A tool result as \<open>executeToolCalls\<close> returns it.\<close>

record 'o ExecutedResult =
  exName :: string
  exOutput :: "'o NormalizedOutput"
  exMessage :: "ustring option"
  exMemoryEntry :: "MemoryEntryInput option"
  exToolCallId :: string

text \<open>The assistant message of a provider response: the content is a string, a list of
  chunks (with or without text), or absent.\<close>

datatype MessageContent = ContentText ustring | ContentChunks "ustring option list" | ContentAbsent

record AssistantMessage =
  amContent :: MessageContent
  am_tool_calls :: "OpenRouterToolCall list option"
  amToolCalls :: "OpenRouterToolCall list option"

text \<open>\<open>sendChat\<close> rejects, or resolves to a response with or without an assistant
  message.\<close>

datatype ClientReply = Rejected ustring | Response "AssistantMessage option"

text \<open>
  What the agent takes from outside: the provider behind the chat client, as a function
  of the number of calls made before and of the messages sent; \<open>JSON.parse\<close> and
  \<open>JSON.stringify\<close>; \<open>getRelevantMemories\<close> (it calls the model and shuffles; \<open>None\<close> when
  it throws); the fixed instruction text of the system prompt; the clock and random
  readings behind a generated tool-call id, by position of the call; and the clock
  reading \<open>addMemory\<close> stamps an entry with.
\<close>

record ('a, 'o, 'w) AgentDeps =
  provider :: "nat \<Rightarrow> ChatMessage list \<Rightarrow> ClientReply"
  parseJson :: "ustring \<Rightarrow> 'a option"
  isObject :: "'o \<Rightarrow> bool"
  stringify :: "'o NormalizedOutput \<Rightarrow> ustring"
  relevantMemories :: "ustring \<Rightarrow> int \<Rightarrow> 'w \<Rightarrow> StoredMemory list option \<times> 'w"
  memoryInstructions :: ustring
  idReading :: "nat \<Rightarrow> int \<times> string"
  clock :: int

record AgentConfig =
  baseSystemPrompt :: ustring
  maxRecursions :: int
  maxContextMessages :: int
  autoInjectMemories :: bool
  maxInjectedMemories :: int

record AgentState =
  history :: "ChatMessage list"
  memoryLog :: "MemoryEntry list"
  injectedMemories :: "StoredMemory list"

datatype RunOutcome = Threw ustring | Returned ustring "AssistantMessage option option"

subsection \<open>The chat client (openrouter.ts)\<close>

text \<open>\<open>toOpenRouterMessages\<close> throws on a tool message without a call id; the renaming of
  fields for the provider is left to \<open>provider\<close>.\<close>

definition lacksCallId :: "ChatMessage \<Rightarrow> bool" where
  "lacksCallId m =
     (role m = Tool \<and>
      missing (case toolCallId m of None \<Rightarrow> tool_call_id m | Some t \<Rightarrow> Some t))"

definition sendChat :: "('a, 'o, 'w) AgentDeps \<Rightarrow> nat \<Rightarrow> ChatMessage list \<Rightarrow> ClientReply" where
  "sendChat deps n messages =
     (if list_ex lacksCallId messages
      then Rejected (ofString ''Tool messages require a toolCallId for OpenRouter compatibility.'')
      else provider deps n messages)"

subsection \<open>Helpers of run\<close>

definition addMemory :: "int \<Rightarrow> MemoryEntryInput \<Rightarrow> MemoryEntry list \<Rightarrow> MemoryEntry list" where
  "addMemory now e log =
     log @ [\<lparr>logRole = entryRole e, logContent = entryContent e,
             logTimestamp = (case entryTimestamp e of None \<Rightarrow> now | Some t \<Rightarrow> t),
             logMetadata = entryMetadata e\<rparr>]"

definition buildSystemPrompt ::
  "('a, 'o, 'w) AgentDeps \<Rightarrow> AgentConfig \<Rightarrow> StoredMemory list \<Rightarrow> ustring" where
  "buildSystemPrompt deps cfg injected =
     baseSystemPrompt cfg @ memoryInstructions deps @ formatMemoriesForPrompt injected"

definition buildMessagesForAPI :: "ustring \<Rightarrow> ChatMessage list \<Rightarrow> ChatMessage list" where
  "buildMessagesForAPI systemPrompt h = systemMsg systemPrompt # filter (\<lambda>m. role m \<noteq> System) h"

definition generateToolCallId :: "int \<times> string \<Rightarrow> string \<Rightarrow> string" where
  "generateToolCallId reading seed =
     (if seed = [] then ''tool'' else seed) @ ''_'' @ toString36 (fst reading) @ ''_'' @ snd reading"

definition contentOf :: "MessageContent \<Rightarrow> ustring" where
  "contentOf c =
     (case c of
        ContentText t \<Rightarrow> t
      | ContentChunks chunks \<Rightarrow>
          trim (joinWith [0xA] (map (\<lambda>chunk. case chunk of None \<Rightarrow> [] | Some t \<Rightarrow> t) chunks))
      | ContentAbsent \<Rightarrow> [])"

definition rawToolCallsOf :: "AssistantMessage \<Rightarrow> OpenRouterToolCall list" where
  "rawToolCallsOf am =
     (case am_tool_calls am of
        Some tcs \<Rightarrow> tcs
      | None \<Rightarrow> (case amToolCalls am of Some tcs \<Rightarrow> tcs | None \<Rightarrow> []))"

definition parseArguments :: "('a, 'o, 'w) AgentDeps \<Rightarrow> ustring \<Rightarrow> 'a ToolArgs" where
  "parseArguments deps text =
     (if text = [] then EmptyArgs
      else (case parseJson deps text of Some v \<Rightarrow> ParsedArgs v | None \<Rightarrow> ParseErrorArgs text))"

definition toRequest :: "('a, 'o, 'w) AgentDeps \<Rightarrow> OpenRouterToolCall \<Rightarrow> 'a ToolCallRequest" where
  "toRequest deps tc =
     \<lparr>reqId = tcId tc, reqName = tcName tc, reqArguments = parseArguments deps (tcArguments tc)\<rparr>"

definition normalizeAssistantMessage ::
  "('a, 'o, 'w) AgentDeps \<Rightarrow> AssistantMessage
     \<Rightarrow> ustring \<times> 'a ToolCallRequest list \<times> OpenRouterToolCall list" where
  "normalizeAssistantMessage deps am =
     (contentOf (amContent am), map (toRequest deps) (rawToolCallsOf am), rawToolCallsOf am)"

subsection \<open>executeToolCalls\<close>

definition notRegistered :: "string \<Rightarrow> ustring" where
  "notRegistered n = ofString (''Tool \"'' @ n @ ''\" not registered'')"

definition callIdOf :: "('a, 'o, 'w) AgentDeps \<Rightarrow> nat \<Rightarrow> 'a ToolCallRequest \<Rightarrow> string" where
  "callIdOf deps k tc =
     (case reqId tc of None \<Rightarrow> generateToolCallId (idReading deps k) (reqName tc) | Some i \<Rightarrow> i)"

definition executeToolCall ::
  "('a, 'o, 'w) AgentDeps \<Rightarrow> (string \<times> ('a, 'o, 'w) Tool) list \<Rightarrow> nat \<Rightarrow> 'a ToolCallRequest
     \<Rightarrow> MemoryEntry list \<Rightarrow> 'w \<Rightarrow> 'o ExecutedResult \<times> MemoryEntry list \<times> 'w" where
  "executeToolCall deps registry k tc log w =
     (case map_of registry (reqName tc) of
        None \<Rightarrow>
          (\<lparr>exName = reqName tc, exOutput = FailureOutput (notRegistered (reqName tc)),
            exMessage = Some (notRegistered (reqName tc)), exMemoryEntry = None,
            exToolCallId = callIdOf deps k tc\<rparr>, log, w)
      | Some tool \<Rightarrow>
          (case execute tool (reqArguments tc) log w of
             (Inr out, added, w') \<Rightarrow>
               (\<lparr>exName = (case trName out of None \<Rightarrow> reqName tc | Some n \<Rightarrow> n),
                 exOutput = (if isObject deps (trOutput out) then SuccessWith (trOutput out)
                             else SuccessResult (trOutput out)),
                 exMessage = trMessage out, exMemoryEntry = trMemoryEntry out,
                 exToolCallId =
                   (case trToolCallId out of None \<Rightarrow> callIdOf deps k tc | Some i \<Rightarrow> i)\<rparr>,
                fold (addMemory (clock deps)) added log, w')
           | (Inl err, added, w') \<Rightarrow>
               (\<lparr>exName = reqName tc, exOutput = FailureOutput err, exMessage = Some err,
                 exMemoryEntry = None, exToolCallId = callIdOf deps k tc\<rparr>,
                fold (addMemory (clock deps)) added log, w')))"

text \<open>The calls of one response, taken in order.\<close>

fun executeToolCalls ::
  "('a, 'o, 'w) AgentDeps \<Rightarrow> (string \<times> ('a, 'o, 'w) Tool) list \<Rightarrow> nat \<Rightarrow> 'a ToolCallRequest list
     \<Rightarrow> MemoryEntry list \<Rightarrow> 'w \<Rightarrow> 'o ExecutedResult list \<times> MemoryEntry list \<times> 'w" where
  "executeToolCalls deps registry k [] log w = ([], log, w)"
| "executeToolCalls deps registry k (tc # tcs) log w =
     (case executeToolCall deps registry k tc log w of
        (r, log1, w1) \<Rightarrow>
          (case executeToolCalls deps registry (Suc k) tcs log1 w1 of
             (rs, log2, w2) \<Rightarrow> (r # rs, log2, w2)))"

definition toolContent :: "('a, 'o, 'w) AgentDeps \<Rightarrow> 'o ExecutedResult \<Rightarrow> ustring" where
  "toolContent deps r = (case exMessage r of Some m \<Rightarrow> m | None \<Rightarrow> stringify deps (exOutput r))"

definition toolResultMsg :: "('a, 'o, 'w) AgentDeps \<Rightarrow> 'o ExecutedResult \<Rightarrow> ChatMessage" where
  "toolResultMsg deps r = toolMsg (toolContent deps r) (exName r) (Some (exToolCallId r))"

definition resultEntries :: "'o ExecutedResult list \<Rightarrow> MemoryEntryInput list" where
  "resultEntries rs = concat (map (\<lambda>r. case exMemoryEntry r of None \<Rightarrow> [] | Some e \<Rightarrow> [e]) rs)"

subsection \<open>run\<close>

text \<open>
  The loop of \<open>run\<close>, on the iteration counter, the number of calls made to the chat
  client, the agent's state, the world, \<open>finalContent\<close> and \<open>lastRaw\<close>. An iteration that
  gets tool calls and no content adds the assistant message and the tool results to
  the history and goes on; every other iteration ends the loop.
\<close>

function runLoop ::
  "('a, 'o, 'w) AgentDeps \<Rightarrow> (string \<times> ('a, 'o, 'w) Tool) list \<Rightarrow> ustring \<Rightarrow> int \<Rightarrow> int \<Rightarrow> nat
     \<Rightarrow> AgentState \<Rightarrow> 'w \<Rightarrow> ustring \<Rightarrow> AssistantMessage option option
     \<Rightarrow> RunOutcome \<times> AgentState \<times> 'w \<times> nat" where
  "runLoop deps registry systemPrompt maxRec iterations calls st w finalContent lastRaw =
     (if iterations < maxRec then
        (case sendChat deps calls (buildMessagesForAPI systemPrompt (history st)) of
           Rejected err \<Rightarrow> (Threw err, st, w, Suc calls)
         | Response None \<Rightarrow>
             (Threw (ofString ''OpenRouter response missing assistant message.''), st, w, Suc calls)
         | Response (Some am) \<Rightarrow>
             (case normalizeAssistantMessage deps am of
                (txt, toolCalls, rawToolCalls) \<Rightarrow>
                  (if toolCalls \<noteq> [] then
                     (case executeToolCalls deps registry 0 toolCalls (memoryLog st) w of
                        (results, log, w') \<Rightarrow>
                          (if txt \<noteq> [] then
                             (Returned txt (Some (Some am)),
                              st\<lparr>history := history st @ assistantCallMsg txt rawToolCalls
                                               # map (toolResultMsg deps) results,
                                 memoryLog := fold (addMemory (clock deps)) (resultEntries results) log\<rparr>,
                              w', Suc calls)
                           else
                             runLoop deps registry systemPrompt maxRec (iterations + 1) (Suc calls)
                               (st\<lparr>history := history st @ assistantCallMsg txt rawToolCalls
                                                # map (toolResultMsg deps) results,
                                   memoryLog := fold (addMemory (clock deps)) (resultEntries results) log\<rparr>)
                               w' finalContent (Some (Some am))))
                   else if txt \<noteq> [] then
                     (Returned txt (Some (Some am)),
                      st\<lparr>history := history st @ [assistantMsg txt]\<rparr>, w, Suc calls)
                   else (Returned finalContent (Some (Some am)), st, w, Suc calls))))
      else (Returned finalContent lastRaw, st, w, calls))"
  by pat_completeness auto
termination
  by (relation "measure (\<lambda>(deps, registry, systemPrompt, maxRec, iterations, rest). nat (maxRec - iterations))")
    auto

declare runLoop.simps [simp del]

record AgentRunOptions =
  optMaxRecursions :: "int option"

text \<open>\<open>run\<close>: trim the history, append the user turn, fetch the memories to inject (the
  previous ones stay when injection is off), build the system prompt, loop.\<close>

definition injectMemories ::
  "('a, 'o, 'w) AgentDeps \<Rightarrow> AgentConfig \<Rightarrow> AgentState \<Rightarrow> 'w \<Rightarrow> ustring \<Rightarrow> StoredMemory list \<times> 'w" where
  "injectMemories deps cfg st w userInput =
     (if autoInjectMemories cfg then
        (case relevantMemories deps userInput (maxInjectedMemories cfg) w of
           (Some ms, w') \<Rightarrow> (ms, w')
         | (None, w') \<Rightarrow> ([], w'))
      else (injectedMemories st, w))"

definition prepare ::
  "('a, 'o, 'w) AgentDeps \<Rightarrow> AgentConfig \<Rightarrow> AgentState \<Rightarrow> 'w \<Rightarrow> ustring \<Rightarrow> AgentState \<times> 'w" where
  "prepare deps cfg st w userInput =
     (st\<lparr>history := trimHistory (maxContextMessages cfg) (history st) @ [userMsg userInput],
         injectedMemories := fst (injectMemories deps cfg st w userInput)\<rparr>,
      snd (injectMemories deps cfg st w userInput))"

definition run ::
  "('a, 'o, 'w) AgentDeps \<Rightarrow> AgentConfig \<Rightarrow> (string \<times> ('a, 'o, 'w) Tool) list \<Rightarrow> AgentState \<Rightarrow> 'w
     \<Rightarrow> ustring \<Rightarrow> AgentRunOptions \<Rightarrow> RunOutcome \<times> AgentState \<times> 'w \<times> nat" where
  "run deps cfg registry st w userInput options =
     runLoop deps registry
       (buildSystemPrompt deps cfg (injectedMemories (fst (prepare deps cfg st w userInput))))
       (case optMaxRecursions options of None \<Rightarrow> maxRecursions cfg | Some n \<Rightarrow> n)
       0 0
       (fst (prepare deps cfg st w userInput)) (snd (prepare deps cfg st w userInput))
       [] None"




subsection \<open>Example agent\<close>

text \<open>A provider that answers every call with one tool call and no content, and a
  registered tool that answers \<open>ok\<close>.\<close>

definition toolOnlyReply :: AssistantMessage where
  "toolOnlyReply = \<lparr>amContent = ContentText [], am_tool_calls = Some [recallCall], amToolCalls = None\<rparr>"

definition exampleTool :: "(unit, unit, unit) Tool" where
  "exampleTool =
     \<lparr>toolName = ''recall_memory'',
      execute = (\<lambda>args log w.
        (Inr \<lparr>trName = Some ''recall_memory'', trOutput = (), trMessage = Some [0x6F, 0x6B],
              trMemoryEntry = None, trToolCallId = None\<rparr>, [], w))\<rparr>"

definition exampleDeps :: "(unit, unit, unit) AgentDeps" where
  "exampleDeps =
     \<lparr>provider = (\<lambda>n msgs. Response (Some toolOnlyReply)),
      parseJson = (\<lambda>t. Some ()),
      isObject = (\<lambda>out. True),
      stringify = (\<lambda>out. []),
      relevantMemories = (\<lambda>input limit w. (Some [], w)),
      memoryInstructions = [],
      idReading = (\<lambda>k. (0, ''r'')),
      clock = 0\<rparr>"

definition exampleConfig :: AgentConfig where
  "exampleConfig =
     \<lparr>baseSystemPrompt = [0x73], maxRecursions = 3, maxContextMessages = 20,
      autoInjectMemories = True, maxInjectedMemories = 5\<rparr>"

definition emptyAgent :: AgentState where
  "emptyAgent = \<lparr>history = [], memoryLog = [], injectedMemories = []\<rparr>"

definition exampleRegistry :: "(string \<times> (unit, unit, unit) Tool) list" where
  "exampleRegistry = [(''recall_memory'', exampleTool)]"

definition exampleResult :: "unit ExecutedResult" where
  "exampleResult =
     \<lparr>exName = ''recall_memory'', exOutput = SuccessWith (), exMessage = Some [0x6F, 0x6B],
      exMemoryEntry = None, exToolCallId = ''call_1''\<rparr>"

definition textReply :: "ustring \<Rightarrow> AssistantMessage" where
  "textReply t = \<lparr>amContent = ContentText t, am_tool_calls = None, amToolCalls = None\<rparr>"

text \<open>A provider that asks for the tool on the question \<open>a\<close>, answers \<open>b\<close> once the tool
  has run, and answers \<open>d\<close> to anything else.\<close>

definition scriptedDeps :: "(unit, unit, unit) AgentDeps" where
  "scriptedDeps =
     exampleDeps\<lparr>provider := (\<lambda>n msgs.
       if role (last msgs) = Tool then Response (Some (textReply [0x62]))
       else if msgContent (last msgs) = [0x61] then Response (Some toolOnlyReply)
       else Response (Some (textReply [0x64])))\<rparr>"

definition smallConfig :: AgentConfig where
  "smallConfig = exampleConfig\<lparr>maxContextMessages := 1\<rparr>"

section \<open>Theorems\<close>

subsection \<open>History trimming\<close>

lemma trimLoop_done:
  "\<not> (removed < n \<and> i < length h) \<Longrightarrow> trimLoop n h i removed = h"
  by (subst trimLoop.simps) auto

lemma conv_splice1:
  assumes "i < length h"
  shows "filter P (splice1 i h) = filter P (take i h) @ filter P (drop (Suc i) h)"
  by (simp add: splice1_def)

lemma conv_split:
  assumes "i < length h"
  shows "filter P h = filter P (take i h) @ (if P (h ! i) then [h ! i] else []) @ filter P (drop (Suc i) h)"
proof -
  have "h = take i h @ h ! i # drop (Suc i) h"
    using assms by (simp add: id_take_nth_drop)
  then have "filter P h = filter P (take i h @ h ! i # drop (Suc i) h)" by simp
  then show ?thesis by simp
qed

lemma drop_splice1: "i < length h \<Longrightarrow> drop i (splice1 i h) = drop (Suc i) h"
  by (simp add: splice1_def)

lemma take_splice1: "i < length h \<Longrightarrow> take i (splice1 i h) = take i h"
  by (simp add: splice1_def)

text \<open>The loop never removes a system message.\<close>

lemma trimLoop_keeps_system:
  "filter (\<lambda>m. role m = System) (trimLoop n h i removed) = filter (\<lambda>m. role m = System) h"
proof (induction n h i removed rule: trimLoop.induct)
  case (1 n h i removed)
  show ?case
  proof (cases "removed < n \<and> i < length h")
    case False
    then show ?thesis by (simp add: trimLoop_done)
  next
    case True
    then have i: "i < length h" by simp
    show ?thesis
    proof (cases "role (h ! i) = User \<or> role (h ! i) = Assistant")
      case c: True
      then have "trimLoop n h i removed = trimLoop n (splice1 i h) i (removed + 1)"
        using True by (subst trimLoop.simps) simp
      moreover have "filter (\<lambda>m. role m = System) (splice1 i h) = filter (\<lambda>m. role m = System) h"
        using c conv_split [OF i, of "\<lambda>m. role m = System"] conv_splice1 [OF i, of "\<lambda>m. role m = System"]
        by auto
      ultimately show ?thesis using "1.IH"(1) [OF True c] by simp
    next
      case nc: False
      show ?thesis
      proof (cases "role (h ! i) = Tool")
        case t: True
        then have "trimLoop n h i removed = trimLoop n (splice1 i h) i removed"
          using True nc by (subst trimLoop.simps) simp
        moreover have "filter (\<lambda>m. role m = System) (splice1 i h) = filter (\<lambda>m. role m = System) h"
          using t conv_split [OF i, of "\<lambda>m. role m = System"] conv_splice1 [OF i, of "\<lambda>m. role m = System"]
          by auto
        ultimately show ?thesis using "1.IH"(2) [OF True nc t] by simp
      next
        case nt: False
        then have "trimLoop n h i removed = trimLoop n h (Suc i) removed"
          using True nc by (subst trimLoop.simps) simp
        then show ?thesis using "1.IH"(3) [OF True nc nt] by simp
      qed
    qed
  qed
qed

text \<open>When enough user and assistant messages lie at or after \<open>i\<close>, the loop removes
  exactly the missing number of them.\<close>

lemma trimLoop_count:
  "removed \<le> n \<Longrightarrow> nat (n - removed) \<le> length (filter isConversation (drop i h)) \<Longrightarrow>
   length (filter isConversation (trimLoop n h i removed)) =
     length (filter isConversation h) - nat (n - removed)"
proof (induction n h i removed rule: trimLoop.induct)
  case (1 n h i removed)
  show ?case
  proof (cases "removed < n \<and> i < length h")
    case False
    with "1.prems" have "nat (n - removed) = 0" by (cases "removed < n") auto
    with False show ?thesis by (simp add: trimLoop_done)
  next
    case True
    then have i: "i < length h" by simp
    have dropi: "drop i h = h ! i # drop (Suc i) h"
      using i by (simp add: Cons_nth_drop_Suc)
    show ?thesis
    proof (cases "role (h ! i) = User \<or> role (h ! i) = Assistant")
      case c: True
      then have cv: "isConversation (h ! i)" by (simp add: isConversation_def)
      have unfold: "trimLoop n h i removed = trimLoop n (splice1 i h) i (removed + 1)"
        using True c by (subst trimLoop.simps) simp
      have len: "length (filter isConversation (splice1 i h)) = length (filter isConversation h) - 1"
        using cv conv_split [OF i, of isConversation] conv_splice1 [OF i, of isConversation] by simp
      have pos: "1 \<le> length (filter isConversation h)"
        using cv conv_split [OF i, of isConversation] by simp
      have enough: "nat (n - (removed + 1)) \<le> length (filter isConversation (drop i (splice1 i h)))"
        using "1.prems"(2) cv True by (simp add: drop_splice1 [OF i] dropi)
      have "length (filter isConversation (trimLoop n (splice1 i h) i (removed + 1))) =
              length (filter isConversation (splice1 i h)) - nat (n - (removed + 1))"
        using "1.IH"(1) [OF True c] True enough by simp
      moreover have "nat (n - removed) = Suc (nat (n - (removed + 1)))"
        using True by arith
      ultimately show ?thesis using unfold len pos by simp
    next
      case nc: False
      then have ncv: "\<not> isConversation (h ! i)" by (simp add: isConversation_def)
      show ?thesis
      proof (cases "role (h ! i) = Tool")
        case t: True
        have unfold: "trimLoop n h i removed = trimLoop n (splice1 i h) i removed"
          using True nc t by (subst trimLoop.simps) simp
        have len: "length (filter isConversation (splice1 i h)) = length (filter isConversation h)"
          using ncv conv_split [OF i, of isConversation] conv_splice1 [OF i, of isConversation] by simp
        have enough: "nat (n - removed) \<le> length (filter isConversation (drop i (splice1 i h)))"
          using "1.prems"(2) ncv by (simp add: drop_splice1 [OF i] dropi)
        show ?thesis
          using "1.IH"(2) [OF True nc t "1.prems"(1) enough] unfold len by simp
      next
        case nt: False
        have unfold: "trimLoop n h i removed = trimLoop n h (Suc i) removed"
          using True nc nt by (subst trimLoop.simps) simp
        have enough: "nat (n - removed) \<le> length (filter isConversation (drop (Suc i) h))"
          using "1.prems"(2) ncv by (simp add: dropi)
        show ?thesis
          using "1.IH"(3) [OF True nc nt "1.prems"(1) enough] unfold by simp
      qed
    qed
  qed
qed

lemma firstNonSystemFrom_prefix:
  "filter isConversation (drop (firstNonSystemFrom k h - k) h) = filter isConversation h"
proof (induction h arbitrary: k)
  case Nil
  then show ?case by simp
next
  case (Cons m h)
  show ?case
  proof (cases "role m \<noteq> System")
    case True
    then show ?thesis by simp
  next
    case False
    then have nc: "\<not> isConversation m" by (simp add: isConversation_def)
    show ?thesis
    proof (cases "firstNonSystemFrom (Suc k) h \<le> k")
      case True
      then have "firstNonSystemFrom (Suc k) h - k = 0" by simp
      with False show ?thesis by simp
    next
      case gt: False
      then have "firstNonSystemFrom (Suc k) h - k = Suc (firstNonSystemFrom (Suc k) h - Suc k)"
        by simp
      with False nc Cons.IH [of "Suc k"] show ?thesis by simp
    qed
  qed
qed

text \<open>What holds of the claim: for a bound \<open>N \<ge> 0\<close> below the number of turns, exactly
  \<open>N\<close> turns remain after trimming, and every system message is still there.\<close>

lemma trimHistory_turns:
  assumes "0 \<le> N" and "N < turns h"
  shows "turns (trimHistory N h) = N \<and>
         filter (\<lambda>m. role m = System) (trimHistory N h) = filter (\<lambda>m. role m = System) h"
proof -
  let ?c = "length (filter isConversation h)"
  let ?n = "(turns h - N) * 2"
  have t: "turns h = int ?c div 2" by (simp add: turns_def)
  have "2 * (int ?c div 2) \<le> int ?c" by simp
  then have "2 * turns h \<le> int ?c" by (simp only: t)
  moreover have "?n = 2 * turns h - 2 * N" by (simp add: algebra_simps)
  ultimately have le: "?n \<le> int ?c" using assms(1) by linarith
  have eq: "trimHistory N h = trimLoop ?n h (firstNonSystemIdx h) 0"
    using assms by (simp add: trimHistory_def)
  have pre: "filter isConversation (drop (firstNonSystemIdx h) h) = filter isConversation h"
    using firstNonSystemFrom_prefix [of 0 h] by (simp add: firstNonSystemIdx_def)
  have "length (filter isConversation (trimLoop ?n h (firstNonSystemIdx h) 0)) = ?c - nat (?n - 0)"
    by (rule trimLoop_count) (use assms le pre in simp_all)
  then have "int (length (filter isConversation (trimHistory N h))) = int ?c - ?n"
    using le assms by (simp add: eq)
  then have "turns (trimHistory N h) = (int ?c - ?n) div 2" by (simp add: turns_def)
  also have "\<dots> = N" using t by simp
  finally show ?thesis by (simp add: eq trimLoop_keeps_system)
qed

text \<open>
  C2. The count and the system messages are as the claim says (\<open>trimHistory_turns\<close>);
  the orphaned tool messages are not. With \<open>maxContextMessages = 1\<close> the example
  history has two turns, so trimming removes two messages: the first user message and
  the assistant message that carried the tool call. The loop stops as soon as the second
  one is removed, before it reaches the tool message that answered the call: that
  message stays in the history, orphaned (before trimming, no tool message was). The
  example history is what two calls of \<open>run\<close> leave (\<open>first_run\<close>, \<open>second_run\<close>).
\<close>

theorem trimHistory_leaves_orphan:
  "orphans [] exampleHistory = [] \<and>
   turns exampleHistory = 2 \<and>
   trimHistory 1 exampleHistory =
     [toolMsg [0x6F, 0x6B] ''recall_memory'' (Some ''call_1''),
      assistantMsg [0x62],
      userMsg [0x63],
      assistantMsg [0x64]] \<and>
   orphans [] (trimHistory 1 exampleHistory) =
     [toolMsg [0x6F, 0x6B] ''recall_memory'' (Some ''call_1'')]"
  by (simp add: trimHistory_def turns_def isConversation_def firstNonSystemIdx_def
      exampleHistory_def trimLoop.simps splice1_def orphans.simps callIds_def
      userMsg_def assistantMsg_def systemMsg_def assistantCallMsg_def toolMsg_def recallCall_def)


subsection \<open>Frames of the index helpers\<close>

lemma initSearchIndex_frame:
  "initSearchIndex s = Inr s1 \<Longrightarrow> memories s1 = memories s \<and> dbOpens s1 = dbOpens s"
  by (auto simp: initSearchIndex_def split: if_splits)

lemma initSearchIndex_ok: "dbOpens s \<Longrightarrow> \<exists>s1. initSearchIndex s = Inr s1"
  by (simp add: initSearchIndex_def)

lemma addToSearchIndex_frame:
  "memories (addToSearchIndex m s) = memories s \<and> dbOpens (addToSearchIndex m s) = dbOpens s"
  by (simp add: addToSearchIndex_def split: option.splits)

lemma removeFromSearchIndex_frame:
  "memories (removeFromSearchIndex i s) = memories s \<and> dbOpens (removeFromSearchIndex i s) = dbOpens s"
  by (simp add: removeFromSearchIndex_def split: option.splits)



subsection \<open>Association lists\<close>

lemma in_update_distinct:
  assumes "distinct (map fst al)"
  shows "(a, b) \<in> set (AList.update k v al) \<longleftrightarrow> (a = k \<and> b = v) \<or> (a \<noteq> k \<and> (a, b) \<in> set al)"
proof -
  have d: "distinct (map fst (AList.update k v al))"
    using assms by (simp add: distinct_update)
  have "(a, b) \<in> set (AList.update k v al) \<longleftrightarrow> map_of (AList.update k v al) a = Some b"
    using d by simp
  also have "\<dots> \<longleftrightarrow> (a = k \<and> b = v) \<or> (a \<noteq> k \<and> map_of al a = Some b)"
    by (auto simp: update_conv')
  also have "\<dots> \<longleftrightarrow> (a = k \<and> b = v) \<or> (a \<noteq> k \<and> (a, b) \<in> set al)"
    using assms by simp
  finally show ?thesis .
qed

lemma in_delete: "(a, b) \<in> set (AList.delete k al) \<longleftrightarrow> a \<noteq> k \<and> (a, b) \<in> set al"
  by (auto simp: AList.delete_eq)

lemma fold_update_in:
  "(k, v) \<in> set (fold (\<lambda>m a. AList.update (f m) (g m) a) xs acc) \<Longrightarrow>
   (k, v) \<in> set acc \<or> (\<exists>m \<in> set xs. k = f m \<and> v = g m)"
proof (induction xs arbitrary: acc)
  case Nil
  then show ?case by simp
next
  case (Cons x xs)
  from Cons.IH [OF Cons.prems [simplified]]
  show ?case
  proof
    assume "(k, v) \<in> set (AList.update (f x) (g x) acc)"
    then have "(k, v) = (f x, g x) \<or> (k, v) \<in> set acc"
      by (induction acc) (auto split: if_splits)
    then show ?thesis by auto
  next
    assume "\<exists>m\<in>set xs. k = f m \<and> v = g m"
    then show ?thesis by auto
  qed
qed

lemma fold_update_distinct:
  "distinct (map fst acc) \<Longrightarrow>
   distinct (map fst (fold (\<lambda>m a. AList.update (f m) (g m) a) xs acc))"
  by (induction xs arbitrary: acc) (simp_all add: distinct_update)

lemma set_validCursor:
  "set (validCursor s) = {m. \<exists>k. (k, m) \<in> set (memories s) \<and> isValid m = 1}"
  by (auto simp: validCursor_def cursorNext_def only_def image_iff)

subsection \<open>The invariant, field by field\<close>

lemma storeInv_db:
  "storeInv s \<Longrightarrow> distinct (map fst (memories s)) \<and> list_all keyIsId (memories s)"
  by (simp add: storeInv_def)

lemma storeInv_index:
  "storeInv s \<Longrightarrow> searchIndex s = Some idx \<Longrightarrow>
   list_all (cacheEntryOk (memories s)) (indexedMemories s) \<and>
   distinct (map fst (indexedMemories s)) \<and>
   list_all (indexEntryOk (memories s)) idx \<and> distinct (map fst idx)"
  by (simp add: storeInv_def)

lemma storeInvI:
  assumes "distinct (map fst (memories s))" and "list_all keyIsId (memories s)"
    and "\<And>idx. searchIndex s = Some idx \<Longrightarrow>
           list_all (cacheEntryOk (memories s)) (indexedMemories s) \<and>
           distinct (map fst (indexedMemories s)) \<and>
           list_all (indexEntryOk (memories s)) idx \<and> distinct (map fst idx)"
  shows "storeInv s"
  using assms by (simp add: storeInv_def split: option.splits)

lemma key_of_record:
  "list_all keyIsId db \<Longrightarrow> map_of db k = Some m \<Longrightarrow> memId m = k"
proof -
  assume a: "list_all keyIsId db" and b: "map_of db k = Some m"
  from b have "(k, m) \<in> set db" by (rule map_of_SomeD)
  with a have "keyIsId (k, m)" by (simp add: list_all_iff)
  then show ?thesis by (simp add: keyIsId_def)
qed

lemma storeInv_fresh:
  "distinct (map fst db) \<Longrightarrow> list_all keyIsId db \<Longrightarrow> storeInv (freshSession opens db)"
  by (simp add: storeInv_def freshSession_def)

lemma storeInv_init:
  assumes "storeInv s" and "initSearchIndex s = Inr s1"
  shows "storeInv s1"
proof (cases "indexInitialized s")
  case True
  with assms show ?thesis by (simp add: initSearchIndex_def)
next
  case False
  let ?v = "validCursor s"
  have s1: "s1 = s\<lparr>searchIndex := Some (fold (\<lambda>m idx. AList.update (memId m) (content m) idx) ?v []),
                   indexedMemories := fold (\<lambda>m cache. AList.update (memId m) m cache) ?v [],
                   indexInitialized := True\<rparr>"
    using assms(2) False by (auto simp: initSearchIndex_def split: if_splits)
  have db: "distinct (map fst (memories s))" "list_all keyIsId (memories s)"
    using storeInv_db [OF assms(1)] by simp_all
  have valid: "\<And>m. m \<in> set ?v \<Longrightarrow> map_of (memories s) (memId m) = Some m \<and> isValid m = 1"
  proof -
    fix m assume "m \<in> set ?v"
    then obtain k where k: "(k, m) \<in> set (memories s)" "isValid m = 1"
      by (auto simp: set_validCursor)
    then have "memId m = k" using db(2) by (auto simp: list_all_iff keyIsId_def)
    with k db(1) show "map_of (memories s) (memId m) = Some m \<and> isValid m = 1" by simp
  qed
  have cache: "list_all (cacheEntryOk (memories s)) (fold (\<lambda>m cache. AList.update (memId m) m cache) ?v [])"
    unfolding list_all_iff
  proof
    fix e assume "e \<in> set (fold (\<lambda>m cache. AList.update (memId m) m cache) ?v [])"
    then have "(fst e, snd e) \<in> set (fold (\<lambda>m cache. AList.update (memId m) m cache) ?v [])" by simp
    from fold_update_in [OF this]
    obtain m where "m \<in> set ?v" "fst e = memId m" "snd e = m" by auto
    with valid [of m] show "cacheEntryOk (memories s) e" by (simp add: cacheEntryOk_def)
  qed
  have idx: "list_all (indexEntryOk (memories s)) (fold (\<lambda>m idx. AList.update (memId m) (content m) idx) ?v [])"
    unfolding list_all_iff
  proof
    fix e assume "e \<in> set (fold (\<lambda>m idx. AList.update (memId m) (content m) idx) ?v [])"
    then have "(fst e, snd e) \<in> set (fold (\<lambda>m idx. AList.update (memId m) (content m) idx) ?v [])" by simp
    from fold_update_in [OF this]
    obtain m where "m \<in> set ?v" "fst e = memId m" "snd e = content m" by auto
    with valid [of m] show "indexEntryOk (memories s) e" by (simp add: indexEntryOk_def)
  qed
  show ?thesis
    unfolding s1
    by (rule storeInvI) (simp_all add: db cache idx fold_update_distinct)
qed


subsection \<open>Writes to the object store\<close>

lemma idbPut_inv:
  assumes "distinct (map fst db)" and "list_all keyIsId db"
  shows "distinct (map fst (idbPut m db)) \<and> list_all keyIsId (idbPut m db)"
proof
  show "distinct (map fst (idbPut m db))"
    using assms(1) by (simp add: idbPut_def distinct_update)
  show "list_all keyIsId (idbPut m db)"
    unfolding list_all_iff
  proof
    fix e assume "e \<in> set (idbPut m db)"
    then have "(fst e, snd e) \<in> set (AList.update (memId m) m db)" by (simp add: idbPut_def)
    then have "(fst e = memId m \<and> snd e = m) \<or> (fst e, snd e) \<in> set db"
      using in_update_distinct [OF assms(1)] by blast
    then show "keyIsId e"
      using assms(2) by (auto simp: list_all_iff keyIsId_def)
  qed
qed

lemma idbDelete_inv:
  assumes "distinct (map fst db)" and "list_all keyIsId db"
  shows "distinct (map fst (idbDelete i db)) \<and> list_all keyIsId (idbDelete i db)"
  using assms by (auto simp: idbDelete_def distinct_delete list_all_iff in_delete)

lemma entry_put_other:
  "fst e \<noteq> memId m \<Longrightarrow> cacheEntryOk (idbPut m db) e = cacheEntryOk db e"
  "fst x \<noteq> memId m \<Longrightarrow> indexEntryOk (idbPut m db) x = indexEntryOk db x"
  by (simp_all add: cacheEntryOk_def indexEntryOk_def idbPut_def update_conv')

lemma entry_delete_other:
  "fst e \<noteq> i \<Longrightarrow> cacheEntryOk (idbDelete i db) e = cacheEntryOk db e"
  "fst x \<noteq> i \<Longrightarrow> indexEntryOk (idbDelete i db) x = indexEntryOk db x"
  by (simp_all add: cacheEntryOk_def indexEntryOk_def idbDelete_def)

lemma entry_put_same:
  "cacheEntryOk (idbPut m db) (memId m, m) = (isValid m = 1)"
  "indexEntryOk (idbPut m db) (memId m, c) = (content m = c)"
  by (simp_all add: cacheEntryOk_def indexEntryOk_def idbPut_def update_conv')

lemma list_all_delete:
  assumes "\<And>e. e \<in> set al \<Longrightarrow> fst e \<noteq> i \<Longrightarrow> Q e"
  shows "list_all Q (AList.delete i al)"
  unfolding list_all_iff
proof
  fix e assume "e \<in> set (AList.delete i al)"
  then have "(fst e, snd e) \<in> set (AList.delete i al)" by simp
  then have "fst e \<noteq> i \<and> (fst e, snd e) \<in> set al"
    using in_delete [of "fst e" "snd e" i al] by blast
  then show "Q e" using assms by simp
qed

lemma list_all_update:
  assumes "distinct (map fst al)" and "Q (k, v)"
    and "\<And>e. e \<in> set al \<Longrightarrow> fst e \<noteq> k \<Longrightarrow> Q e"
  shows "list_all Q (AList.update k v al)"
  unfolding list_all_iff
proof
  fix e assume "e \<in> set (AList.update k v al)"
  then have "(fst e, snd e) \<in> set (AList.update k v al)" by simp
  then have "(fst e = k \<and> snd e = v) \<or> (fst e \<noteq> k \<and> (fst e, snd e) \<in> set al)"
    using in_update_distinct [OF assms(1), of "fst e" "snd e" k v] by blast
  then show "Q e"
  proof
    assume "fst e = k \<and> snd e = v"
    then have "e = (k, v)" by (cases e) simp
    with assms(2) show ?thesis by simp
  next
    assume "fst e \<noteq> k \<and> (fst e, snd e) \<in> set al"
    with assms(3) show ?thesis by simp
  qed
qed

subsection \<open>invalidate and delete keep the store consistent\<close>

lemma storeInv_removeFromSearchIndex_put:
  assumes "storeInv s" and "map_of (memories s) i = Some m" and "memId m' = i"
  shows "storeInv (removeFromSearchIndex i (s\<lparr>memories := idbPut m' (memories s)\<rparr>))"
proof (rule storeInvI)
  let ?s' = "removeFromSearchIndex i (s\<lparr>memories := idbPut m' (memories s)\<rparr>)"
  have mem: "memories ?s' = idbPut m' (memories s)"
    by (simp add: removeFromSearchIndex_def split: option.splits)
  show "distinct (map fst (memories ?s'))" "list_all keyIsId (memories ?s')"
    using idbPut_inv [of "memories s" m'] storeInv_db [OF assms(1)] by (simp_all add: mem)
  fix idx' assume idx': "searchIndex ?s' = Some idx'"
  then obtain idx where idx: "searchIndex s = Some idx" and eq: "idx' = AList.delete i idx"
    by (auto simp: removeFromSearchIndex_def split: option.splits)
  have cache: "indexedMemories ?s' = AList.delete i (indexedMemories s)"
    using idx by (simp add: removeFromSearchIndex_def)
  note inv = storeInv_index [OF assms(1) idx]
  have c: "list_all (cacheEntryOk (idbPut m' (memories s))) (AList.delete i (indexedMemories s))"
    by (rule list_all_delete) (use inv assms(3) in \<open>simp add: entry_put_other list_all_iff\<close>)
  have x: "list_all (indexEntryOk (idbPut m' (memories s))) (AList.delete i idx)"
    by (rule list_all_delete) (use inv assms(3) in \<open>simp add: entry_put_other list_all_iff\<close>)
  show "list_all (cacheEntryOk (memories ?s')) (indexedMemories ?s') \<and>
        distinct (map fst (indexedMemories ?s')) \<and>
        list_all (indexEntryOk (memories ?s')) idx' \<and> distinct (map fst idx')"
    using c x inv by (simp add: mem cache eq distinct_delete)
qed

lemma storeInv_invalidate:
  assumes "storeInv s" and "invalidate s i = Inr s'"
  shows "storeInv s'"
proof (cases "idbGet i (memories s)")
  case None
  with assms show ?thesis by (auto simp: invalidate_def getDB_def split: if_splits)
next
  case (Some m)
  have id: "memId m = i"
    using key_of_record [of "memories s" i m] storeInv_db [OF assms(1)] Some
    by (simp add: idbGet_def)
  have "s' = removeFromSearchIndex i (s\<lparr>memories := idbPut (m\<lparr>isValid := 0\<rparr>) (memories s)\<rparr>)"
    using assms(2) Some by (auto simp: invalidate_def getDB_def split: if_splits)
  then show ?thesis
    using storeInv_removeFromSearchIndex_put [OF assms(1), of i m "m\<lparr>isValid := 0\<rparr>"] Some id
    by (simp add: idbGet_def)
qed

lemma storeInv_delete:
  assumes "storeInv s" and "delete s i = Inr s'"
  shows "storeInv s'"
proof -
  let ?t = "removeFromSearchIndex i (s\<lparr>memories := idbDelete i (memories s)\<rparr>)"
  have s': "s' = ?t"
    using assms(2) by (auto simp: delete_def getDB_def split: if_splits)
  have mem: "memories ?t = idbDelete i (memories s)"
    by (simp add: removeFromSearchIndex_def split: option.splits)
  have "storeInv ?t"
  proof (rule storeInvI)
    show "distinct (map fst (memories ?t))" "list_all keyIsId (memories ?t)"
      using idbDelete_inv [of "memories s" i] storeInv_db [OF assms(1)] by (simp_all add: mem)
    fix idx' assume idx': "searchIndex ?t = Some idx'"
    then obtain idx where idx: "searchIndex s = Some idx" and eq: "idx' = AList.delete i idx"
      by (auto simp: removeFromSearchIndex_def split: option.splits)
    have cache: "indexedMemories ?t = AList.delete i (indexedMemories s)"
      using idx by (simp add: removeFromSearchIndex_def)
    note inv = storeInv_index [OF assms(1) idx]
    have c: "list_all (cacheEntryOk (idbDelete i (memories s))) (AList.delete i (indexedMemories s))"
      by (rule list_all_delete) (use inv in \<open>simp add: entry_delete_other list_all_iff\<close>)
    have x: "list_all (indexEntryOk (idbDelete i (memories s))) (AList.delete i idx)"
      by (rule list_all_delete) (use inv in \<open>simp add: entry_delete_other list_all_iff\<close>)
    show "list_all (cacheEntryOk (memories ?t)) (indexedMemories ?t) \<and>
          distinct (map fst (indexedMemories ?t)) \<and>
          list_all (indexEntryOk (memories ?t)) idx' \<and> distinct (map fst idx')"
      using c x inv by (simp add: mem cache eq distinct_delete)
  qed
  then show ?thesis by (simp add: s')
qed


subsection \<open>store keeps the store consistent\<close>

lemma entry_append:
  "cacheEntryOk db e \<Longrightarrow> cacheEntryOk (db @ [p]) e"
  "indexEntryOk db x \<Longrightarrow> indexEntryOk (db @ [p]) x"
  by (auto simp: cacheEntryOk_def indexEntryOk_def map_add_def split: option.splits)

lemma storeInv_append:
  assumes "storeInv s" and "map_of (memories s) (memId m) = None"
  shows "storeInv (s\<lparr>memories := memories s @ [(memId m, m)]\<rparr>)"
proof (rule storeInvI)
  let ?t = "s\<lparr>memories := memories s @ [(memId m, m)]\<rparr>"
  have "memId m \<notin> fst ` set (memories s)"
    using assms(2) by (simp add: map_of_eq_None_iff)
  then show "distinct (map fst (memories ?t))"
    using storeInv_db [OF assms(1)] by simp
  show "list_all keyIsId (memories ?t)"
    using storeInv_db [OF assms(1)] by (simp add: keyIsId_def)
  fix idx assume "searchIndex ?t = Some idx"
  then have idx: "searchIndex s = Some idx" by simp
  note inv = storeInv_index [OF assms(1) idx]
  show "list_all (cacheEntryOk (memories ?t)) (indexedMemories ?t) \<and>
        distinct (map fst (indexedMemories ?t)) \<and>
        list_all (indexEntryOk (memories ?t)) idx \<and> distinct (map fst idx)"
    using inv by (simp add: list_all_iff entry_append)
qed

lemma storeInv_addToSearchIndex:
  assumes "storeInv t" and "map_of (memories t) (memId m) = Some m"
  shows "storeInv (addToSearchIndex m t)"
proof (cases "searchIndex t")
  case None
  with assms(1) show ?thesis by (simp add: addToSearchIndex_def)
next
  case (Some idx)
  note inv = storeInv_index [OF assms(1) Some]
  show ?thesis
  proof (cases "isValid m = 1")
    case False
    with assms(1) Some show ?thesis by (simp add: addToSearchIndex_def)
  next
    case True
    have c: "list_all (cacheEntryOk (memories t)) (AList.update (memId m) m (indexedMemories t))"
      by (rule list_all_update)
        (use inv assms(2) True in \<open>simp_all add: cacheEntryOk_def list_all_iff\<close>)
    have x: "list_all (indexEntryOk (memories t)) (AList.update (memId m) (content m) idx)"
      by (rule list_all_update)
        (use inv assms(2) in \<open>simp_all add: indexEntryOk_def list_all_iff\<close>)
    show ?thesis
      by (rule storeInvI)
        (use storeInv_db [OF assms(1)] c x inv Some True in
          \<open>simp_all add: addToSearchIndex_def distinct_update\<close>)
  qed
qed

lemma store_unfold:
  assumes "store P env s c cat imp meta = Inr (m, s')"
  shows "\<exists>s1. initSearchIndex s = Inr s1 \<and> map_of (memories s1) (memId m) = None \<and>
           m = newMemory P env c cat imp meta \<and>
           s' = addToSearchIndex m (s1\<lparr>memories := memories s1 @ [(memId m, m)]\<rparr>)"
  using assms
  by (auto simp: store_def getDB_def idbAdd_def split: if_splits sum.splits option.splits)

lemma storeInv_store:
  assumes "storeInv s" and "store P env s c cat imp meta = Inr (m, s')"
  shows "storeInv s'"
proof -
  from store_unfold [OF assms(2)] obtain s1 where
    s1: "initSearchIndex s = Inr s1" and
    fresh: "map_of (memories s1) (memId m) = None" and
    s': "s' = addToSearchIndex m (s1\<lparr>memories := memories s1 @ [(memId m, m)]\<rparr>)"
    by blast
  have "storeInv s1" using storeInv_init [OF assms(1) s1] .
  then have t: "storeInv (s1\<lparr>memories := memories s1 @ [(memId m, m)]\<rparr>)"
    using fresh by (rule storeInv_append)
  have "map_of (memories (s1\<lparr>memories := memories s1 @ [(memId m, m)]\<rparr>)) (memId m) = Some m"
    using fresh by (simp add: map_add_def)
  with t show ?thesis unfolding s' by (rule storeInv_addToSearchIndex)
qed

subsection \<open>recordAccess and update keep the store consistent\<close>

lemma storeInv_recordAccess:
  assumes "storeInv s" and "recordAccess now s i = Inr s'"
  shows "storeInv s'"
proof (cases "idbGet i (memories s)")
  case None
  with assms show ?thesis by (auto simp: recordAccess_def getDB_def split: if_splits)
next
  case (Some m)
  let ?m' = "m\<lparr>lastAccessedAt := now, accessCount := accessCount m + 1\<rparr>"
  let ?db = "idbPut ?m' (memories s)"
  have get: "map_of (memories s) i = Some m" using Some by (simp add: idbGet_def)
  have id: "memId m = i"
    using key_of_record [of "memories s" i m] storeInv_db [OF assms(1)] get by simp
  have s': "s' = s\<lparr>memories := ?db,
                    indexedMemories :=
                      (if map_of (indexedMemories s) i \<noteq> None
                       then AList.update i ?m' (indexedMemories s) else indexedMemories s)\<rparr>"
    using assms(2) Some by (auto simp: recordAccess_def getDB_def split: if_splits)
  show ?thesis
    unfolding s'
  proof (rule storeInvI)
    let ?t = "s\<lparr>memories := ?db,
                 indexedMemories :=
                   (if map_of (indexedMemories s) i \<noteq> None
                    then AList.update i ?m' (indexedMemories s) else indexedMemories s)\<rparr>"
    show "distinct (map fst (memories ?t))" "list_all keyIsId (memories ?t)"
      using idbPut_inv [of "memories s" ?m'] storeInv_db [OF assms(1)] by simp_all
    fix idx assume "searchIndex ?t = Some idx"
    then have idx: "searchIndex s = Some idx" by simp
    note inv = storeInv_index [OF assms(1) idx]
    have other: "\<And>e. e \<in> set (indexedMemories s) \<Longrightarrow> fst e \<noteq> i \<Longrightarrow> cacheEntryOk ?db e"
      using inv id by (simp add: entry_put_other list_all_iff)
    have c: "list_all (cacheEntryOk ?db)
               (if map_of (indexedMemories s) i \<noteq> None
                then AList.update i ?m' (indexedMemories s) else indexedMemories s)"
    proof (cases "map_of (indexedMemories s) i")
      case None
      then have "i \<notin> fst ` set (indexedMemories s)" by (simp add: map_of_eq_None_iff)
      then have "\<And>e. e \<in> set (indexedMemories s) \<Longrightarrow> fst e \<noteq> i" by auto
      with other None show ?thesis by (simp add: list_all_iff)
    next
      case (Some c)
      then have "(i, c) \<in> set (indexedMemories s)" by (rule map_of_SomeD)
      with inv have "cacheEntryOk (memories s) (i, c)" by (simp add: list_all_iff)
      with get have "isValid m = 1" by (simp add: cacheEntryOk_def)
      then have "cacheEntryOk ?db (i, ?m')"
        using entry_put_same(1) [of ?m' "memories s"] id by simp
      with other inv Some show ?thesis
        by (simp add: list_all_update)
    qed
    have x: "list_all (indexEntryOk ?db) idx"
      unfolding list_all_iff
    proof
      fix e assume e: "e \<in> set idx"
      with inv have ok: "indexEntryOk (memories s) e" by (simp add: list_all_iff)
      show "indexEntryOk ?db e"
      proof (cases "fst e = i")
        case True
        with ok get have "content m = snd e" by (simp add: indexEntryOk_def)
        with True id show ?thesis
          by (simp add: indexEntryOk_def idbPut_def update_conv')
      next
        case False
        with ok id show ?thesis by (simp add: entry_put_other)
      qed
    qed
    show "list_all (cacheEntryOk (memories ?t)) (indexedMemories ?t) \<and>
          distinct (map fst (indexedMemories ?t)) \<and>
          list_all (indexEntryOk (memories ?t)) idx \<and> distinct (map fst idx)"
      using c x inv by (simp add: distinct_update)
  qed
qed






lemma storeInv_clearAll: "clearAll s = Inr s' \<Longrightarrow> storeInv s'"
  by (auto simp: clearAll_def getDB_def storeInv_def split: if_splits)

lemma storeInv_close: "storeInv s \<Longrightarrow> storeInv (close s)"
  by (simp add: close_def storeInv_def)

lemma storeInv_rebuildSearchIndex:
  assumes "storeInv s" and "rebuildSearchIndex s = Inr s'"
  shows "storeInv s'"
proof -
  have "storeInv (s\<lparr>indexInitialized := False, searchIndex := None, indexedMemories := []\<rparr>)"
    using assms(1) by (simp add: storeInv_def)
  then show ?thesis
    using assms(2) unfolding rebuildSearchIndex_def by (rule storeInv_init)
qed

lemma search_unfold:
  assumes "search P now s q limit = Inr (rs, s')"
  shows "initSearchIndex s = Inr s'"
  using assms by (auto simp: search_def split: sum.splits option.splits if_splits)

lemma storeInv_search:
  "storeInv s \<Longrightarrow> search P now s q limit = Inr (rs, s') \<Longrightarrow> storeInv s'"
  by (rule storeInv_init) (auto dest: search_unfold)

subsection \<open>Listings and search return valid records of the database\<close>

lemma collectValid_eq:
  "collectValid limit acc xs =
     acc @ take (nat (limit - int (length acc))) (filter (\<lambda>m. isValid m = 1) xs)"
proof (induction xs arbitrary: acc)
  case Nil
  then show ?case by simp
next
  case (Cons a xs)
  show ?case
  proof (cases "int (length acc) < limit")
    case False
    then show ?thesis by simp
  next
    case True
    then have n: "nat (limit - int (length acc)) = Suc (nat (limit - int (length acc) - 1))"
      by simp
    show ?thesis
    proof (cases "isValid a = 1")
      case v: True
      have "collectValid limit acc (a # xs) = collectValid limit (acc @ [a]) xs"
        using True v by simp
      also have "\<dots> = (acc @ [a]) @ take (nat (limit - int (length (acc @ [a]))))
                                        (filter (\<lambda>m. isValid m = 1) xs)"
        by (rule Cons.IH)
      also have "\<dots> = acc @ take (nat (limit - int (length acc))) (filter (\<lambda>m. isValid m = 1) (a # xs))"
        using v by (subst n) (simp add: algebra_simps)
      finally show ?thesis .
    next
      case False
      with True Cons.IH [of acc] show ?thesis by simp
    qed
  qed
qed

lemma collectValid_subset:
  "set (collectValid limit [] xs) \<subseteq> {m \<in> set xs. isValid m = 1}"
  by (auto simp: collectValid_eq dest: in_set_takeD)

lemma cursor_records:
  "set (cursorPrev key db) = snd ` set db"
  by (simp add: cursorPrev_def cursorNext_def)

lemma only_subset: "set (only key v db) \<subseteq> set db"
  by (auto simp: only_def)

lemma record_by_id:
  assumes "distinct (map fst db)" and "list_all keyIsId db"
    and "map_of db i = Some m" and "m' \<in> snd ` set db" and "memId m' = i"
  shows "m' = m"
proof -
  from assms(4) obtain k where k: "(k, m') \<in> set db" by auto
  with assms(2) have "memId m' = k" by (auto simp: list_all_iff keyIsId_def)
  with assms(5) k have "(i, m') \<in> set db" by simp
  with assms(1) have "map_of db i = Some m'" by simp
  with assms(3) show ?thesis by simp
qed

lemma listing_hides:
  assumes "distinct (map fst db)" and "list_all keyIsId db"
    and "map_of db i = Some m" and "isValid m \<noteq> 1" and "set xs \<subseteq> snd ` set db"
  shows "i \<notin> memId ` set (collectValid limit [] xs)"
proof
  assume "i \<in> memId ` set (collectValid limit [] xs)"
  then obtain m' where m': "m' \<in> set (collectValid limit [] xs)" "memId m' = i" by auto
  with collectValid_subset [of limit xs] have v: "m' \<in> set xs" "isValid m' = 1" by auto
  with assms(5) have "m' \<in> snd ` set db" by auto
  from record_by_id [OF assms(1,2,3) this m'(2)] v(2) assms(4) show False by simp
qed

lemma scoreResults_from_cache:
  "r \<in> set (scoreResults P now ql cache n ids) \<Longrightarrow>
   \<exists>k. map_of cache k = Some (memory r) \<and> isValid (memory r) = 1"
  by (induction ids arbitrary: n) (auto split: option.splits if_splits)

lemma set_slice0: "set (slice0 n xs) \<subseteq> set xs"
  by (auto simp: slice0_def dest: in_set_takeD)

lemma search_hides:
  assumes "storeInv s" and "idbGet i (memories s) = Some m" and "isValid m \<noteq> 1"
    and "search P now s q limit = Inr (rs, s')"
  shows "i \<notin> memId ` memory ` set rs"
proof
  assume "i \<in> memId ` memory ` set rs"
  then obtain r where r: "r \<in> set rs" "memId (memory r) = i" by auto
  have s': "initSearchIndex s = Inr s'" using search_unfold [OF assms(4)] .
  have inv: "storeInv s'" using storeInv_init [OF assms(1) s'] .
  have mem: "memories s' = memories s"
    using s' by (auto simp: initSearchIndex_def split: if_splits)
  from assms(4) s' r(1) obtain idx where idx: "searchIndex s' = Some idx"
    by (auto simp: search_def split: option.splits if_splits)
  from assms(4) s' idx r(1)
  have "r \<in> set (slice0 limit (sort_key (\<lambda>r. - relevanceScore r)
          (scoreResults P now (toLowerCase P q) (indexedMemories s') 0 (flexSearch P idx q (limit * 2)))))"
    by (auto simp: search_def split: if_splits)
  then have "r \<in> set (scoreResults P now (toLowerCase P q) (indexedMemories s') 0 (flexSearch P idx q (limit * 2)))"
    using set_slice0 by fastforce
  from scoreResults_from_cache [OF this] obtain k where
    k: "map_of (indexedMemories s') k = Some (memory r)" "isValid (memory r) = 1" by blast
  then have "(k, memory r) \<in> set (indexedMemories s')" by (auto dest: map_of_SomeD)
  with storeInv_index [OF inv idx] have "cacheEntryOk (memories s) (k, memory r)"
    by (simp add: list_all_iff mem)
  then have db: "map_of (memories s) k = Some (memory r)" by (simp add: cacheEntryOk_def)
  with key_of_record [of "memories s" k "memory r"] storeInv_db [OF assms(1)] r(2)
  have "k = i" by simp
  with db assms(2) have "memory r = m" by (simp add: idbGet_def)
  with k(2) assms(3) show False by simp
qed

lemma search_total: "dbOpens s \<Longrightarrow> \<exists>rs s'. search P now s q limit = Inr (rs, s')"
  by (auto simp: search_def initSearchIndex_def split: option.splits)

lemma count_without:
  assumes "distinct (map fst db)" and "map_of db i = Some m" and "isValid m \<noteq> 1"
  shows "only isValid 1 (idbDelete i db) = only isValid 1 db"
proof -
  have "\<And>a b. (a, b) \<in> set db \<Longrightarrow> isValid b = 1 \<Longrightarrow> a \<noteq> i"
  proof -
    fix a b assume e: "(a, b) \<in> set db" "isValid b = 1"
    show "a \<noteq> i"
    proof
      assume "a = i"
      with e(1) assms(1) have "map_of db i = Some b" by simp
      with assms(2,3) e(2) show False by simp
    qed
  qed
  then show ?thesis
    unfolding only_def idbDelete_def AList.delete_eq filter_filter
    by (intro filter_cong) auto
qed

subsection \<open>store, then getById\<close>



lemma toString36_1000: "toString36 1000 = ''rs''"
  by (simp add: toString36_def toString36Nat.simps digit36_def)



subsection \<open>Idempotence\<close>

lemma getDB_open: "dbOpens s \<Longrightarrow> getDB s = Inr ()"
  by (simp add: getDB_def)

lemma invalidate_twice_aux:
  assumes "dbOpens s"
  shows "\<exists>s1. invalidate s i = Inr s1 \<and> invalidate s1 i = Inr s1"
proof (cases "idbGet i (memories s)")
  case None
  then show ?thesis using assms by (simp add: invalidate_def getDB_def)
next
  case (Some m)
  let ?m0 = "m\<lparr>isValid := 0\<rparr>"
  let ?db = "idbPut ?m0 (memories s)"
  let ?s1 = "removeFromSearchIndex i (s\<lparr>memories := ?db\<rparr>)"
  have one: "invalidate s i = Inr ?s1"
    using assms Some by (simp add: invalidate_def getDB_def)
  have mem1: "memories ?s1 = ?db" "dbOpens ?s1"
    using assms by (simp_all add: removeFromSearchIndex_frame)
  have get1: "idbGet i ?db = Some (if memId m = i then ?m0 else m)"
    using Some by (simp add: idbGet_def idbPut_def update_conv')
  have put2: "idbPut ((if memId m = i then ?m0 else m)\<lparr>isValid := 0\<rparr>) ?db = ?db"
    by (simp add: idbPut_def)
  have rem2: "removeFromSearchIndex i (?s1\<lparr>memories := ?db\<rparr>) = ?s1"
    by (simp add: removeFromSearchIndex_def delete_idem split: option.splits)
  have two: "invalidate ?s1 i = Inr ?s1"
    unfolding invalidate_def using mem1 get1 put2 rem2
    by (simp add: getDB_def)
  show ?thesis using one two by blast
qed


lemma delete_absent_key:
  assumes "storeInv s" and "dbOpens s" and "idbGet i (memories s) = None"
  shows "delete s i = Inr s"
proof -
  have nodb: "i \<notin> fst ` set (memories s)"
    using assms(3) by (simp add: idbGet_def map_of_eq_None_iff)
  have db: "idbDelete i (memories s) = memories s"
    using nodb by (simp add: idbDelete_def)
  have rem: "removeFromSearchIndex i s = s"
  proof (cases "searchIndex s")
    case None
    then show ?thesis by (simp add: removeFromSearchIndex_def)
  next
    case (Some idx)
    have c: "list_all (cacheEntryOk (memories s)) (indexedMemories s)"
      and x: "list_all (indexEntryOk (memories s)) idx"
      using assms(1) Some by (simp_all add: storeInv_def)
    have "i \<notin> fst ` set (indexedMemories s)"
      using c assms(3) by (auto simp: list_all_iff cacheEntryOk_def idbGet_def)
    moreover have "i \<notin> fst ` set idx"
      using x assms(3) by (auto simp: list_all_iff indexEntryOk_def idbGet_def)
    ultimately show ?thesis
      using Some by (simp add: removeFromSearchIndex_def)
  qed
  show ?thesis
    using assms(2) db rem by (simp add: delete_def getDB_def)
qed


subsection \<open>The example store\<close>

lemma store_cat:
  "store examplePlatform (envAt 1000 ''abc123'') (freshSession True [])
     [0x63, 0x61, 0x74] ''fact'' (Some 7) None = Inr (catMemory, catStore)"
  by (simp add: store_def getDB_def freshSession_def initSearchIndex_def validCursor_def
      cursorNext_def only_def idbAdd_def newMemory_def generateId_def envAt_def toString36_1000
      clampImportance_def extractKeywords_def chineseTokenizer_def examplePlatform_def
      isCJK_def isAlnum_def flush_def asciiLowerCase_def lowerUnit_def
      addToSearchIndex_def catMemory_def catStore_def)

lemma invalidate_cat: "invalidate catStore ''mem_rs_abc123'' = Inr forgottenStore"
  by (simp add: invalidate_def getDB_def catStore_def idbGet_def idbPut_def
      removeFromSearchIndex_def forgottenStore_def catMemory_def)

lemma storeInv_catStore: "storeInv catStore"
  by (simp add: storeInv_def catStore_def catMemory_def keyIsId_def cacheEntryOk_def indexEntryOk_def)

lemma storeInv_forgottenStore: "storeInv forgottenStore"
  by (simp add: storeInv_def forgottenStore_def catMemory_def keyIsId_def)


lemma invalidate_flags_record:
  assumes "storeInv s" and "dbOpens s" and "idbGet i (memories s) = Some m"
  shows "\<exists>s'. invalidate s i = Inr s' \<and> idbGet i (memories s') = Some (m\<lparr>isValid := 0\<rparr>) \<and>
           storeInv s'"
proof -
  have id: "memId m = i"
    using key_of_record [of "memories s" i m] storeInv_db [OF assms(1)] assms(3)
    by (simp add: idbGet_def)
  obtain s' where s': "invalidate s i = Inr s'"
    using assms(2,3) by (simp add: invalidate_def getDB_def)
  have "idbGet i (memories s') = Some (m\<lparr>isValid := 0\<rparr>)"
    using s' assms(2,3) id
    by (auto simp: invalidate_def getDB_def removeFromSearchIndex_frame idbGet_def idbPut_def
        update_conv')
  with s' storeInv_invalidate [OF assms(1) s'] show ?thesis by blast
qed

text \<open>
  C9. On a consistent store whose database opens, \<open>invalidate\<close> succeeds and a second
  \<open>invalidate\<close> of the same id leaves the store exactly as the first one left it; and
  \<open>delete\<close> of an id the database does not hold succeeds and changes nothing.
\<close>

theorem invalidate_twice_delete_absent:
  assumes "storeInv s" and "dbOpens s" and "idbGet j (memories s) = None"
  shows "(\<exists>s1. invalidate s i = Inr s1 \<and> invalidate s1 i = Inr s1) \<and> delete s j = Inr s"
  using invalidate_twice_aux [OF assms(2)] delete_absent_key [OF assms] by simp

theorem invalidate_twice_delete_absent_witness:
  "storeInv catStore \<and> dbOpens catStore \<and> idbGet ''mem_none'' (memories catStore) = None \<and>
   (\<exists>s1. invalidate catStore ''mem_rs_abc123'' = Inr s1 \<and> invalidate s1 ''mem_rs_abc123'' = Inr s1) \<and>
   delete catStore ''mem_none'' = Inr catStore"
proof -
  have h1: "storeInv catStore" by (rule storeInv_catStore)
  have h2: "dbOpens catStore" by (simp add: catStore_def)
  have h3: "idbGet ''mem_none'' (memories catStore) = None"
    by (simp add: catStore_def idbGet_def)
  show ?thesis
    using h1 h2 h3 invalidate_twice_delete_absent [OF h1 h2 h3, of "''mem_rs_abc123''"] by blast
qed


subsection \<open>Invalidated records\<close>

text \<open>
  C3. In a consistent store whose database opens, a record whose validity flag is not 1
  (\<open>invalidate\<close> sets it to 0, see \<open>invalidate_flags_record\<close>; every operation keeps the
  store consistent, see the \<open>storeInv\<close> lemmas) is in no result of \<open>search\<close>,
  \<open>getByCategory\<close>, \<open>getMostImportant\<close> or \<open>getRecent\<close>, whatever the query, category
  and limits; \<open>getCount\<close> is what it would be without the record; \<open>getById\<close> still
  returns the record; and after \<open>delete\<close>, \<open>getById\<close> returns nothing.
\<close>

theorem invalidated_record_hidden:
  assumes "storeInv s" and "dbOpens s" and "idbGet i (memories s) = Some m" and "isValid m \<noteq> 1"
  shows "(\<exists>rs s'. search P now s q limit = Inr (rs, s') \<and> i \<notin> memId ` memory ` set rs) \<and>
         (\<exists>ms. getByCategory s cat n1 = Inr ms \<and> i \<notin> memId ` set ms) \<and>
         (\<exists>ms. getMostImportant s n2 = Inr ms \<and> i \<notin> memId ` set ms) \<and>
         (\<exists>ms. getRecent s n3 = Inr ms \<and> i \<notin> memId ` set ms) \<and>
         getCount s = getCount (s\<lparr>memories := idbDelete i (memories s)\<rparr>) \<and>
         getById s i = Inr (Some m) \<and>
         (\<exists>s'. delete s i = Inr s' \<and> getById s' i = Inr None)"
proof -
  note db = storeInv_db [OF assms(1)]
  have get: "map_of (memories s) i = Some m" using assms(3) by (simp add: idbGet_def)
  have a: "\<exists>rs s'. search P now s q limit = Inr (rs, s') \<and> i \<notin> memId ` memory ` set rs"
    using search_total [OF assms(2), of P now q limit] search_hides [OF assms(1,3,4)] by blast
  have hide: "\<And>xs n. set xs \<subseteq> snd ` set (memories s) \<Longrightarrow> i \<notin> memId ` set (collectValid n [] xs)"
    using listing_hides [of "memories s" i m] db get assms(4) by simp
  have b: "\<exists>ms. getByCategory s cat n1 = Inr ms \<and> i \<notin> memId ` set ms"
    using assms(2) hide [of "cursorPrev category (only category cat (memories s))" n1]
      only_subset [of category cat "memories s"]
    by (auto simp: getByCategory_def getDB_def cursor_records)
  have c: "\<exists>ms. getMostImportant s n2 = Inr ms \<and> i \<notin> memId ` set ms"
    using assms(2) hide [of "cursorPrev importance (memories s)" n2]
    by (simp add: getMostImportant_def getDB_def cursor_records)
  have d: "\<exists>ms. getRecent s n3 = Inr ms \<and> i \<notin> memId ` set ms"
    using assms(2) hide [of "cursorPrev createdAt (memories s)" n3]
    by (simp add: getRecent_def getDB_def cursor_records)
  have e: "getCount s = getCount (s\<lparr>memories := idbDelete i (memories s)\<rparr>)"
    using count_without [OF db [THEN conjunct1] get assms(4)] by (simp add: getCount_def getDB_def)
  have f: "getById s i = Inr (Some m)"
    using assms(2,3) by (simp add: getById_def getDB_def)
  have g: "\<exists>s'. delete s i = Inr s' \<and> getById s' i = Inr None"
    using assms(2)
    by (simp add: delete_def getDB_def getById_def removeFromSearchIndex_frame idbGet_def
        idbDelete_def delete_conv')
  show ?thesis using a b c d e f g by blast
qed

theorem invalidated_record_hidden_witness:
  "storeInv forgottenStore \<and> dbOpens forgottenStore \<and>
   idbGet ''mem_rs_abc123'' (memories forgottenStore) = Some (catMemory\<lparr>isValid := 0\<rparr>) \<and>
   isValid (catMemory\<lparr>isValid := 0\<rparr>) \<noteq> 1 \<and>
   (\<exists>rs s'. search examplePlatform 2000 forgottenStore [0x63, 0x61, 0x74] 10 = Inr (rs, s') \<and>
      ''mem_rs_abc123'' \<notin> memId ` memory ` set rs) \<and>
   (\<exists>ms. getByCategory forgottenStore ''fact'' 20 = Inr ms \<and> ''mem_rs_abc123'' \<notin> memId ` set ms) \<and>
   (\<exists>ms. getMostImportant forgottenStore 10 = Inr ms \<and> ''mem_rs_abc123'' \<notin> memId ` set ms) \<and>
   (\<exists>ms. getRecent forgottenStore 10 = Inr ms \<and> ''mem_rs_abc123'' \<notin> memId ` set ms) \<and>
   getCount forgottenStore =
     getCount (forgottenStore\<lparr>memories := idbDelete ''mem_rs_abc123'' (memories forgottenStore)\<rparr>) \<and>
   getById forgottenStore ''mem_rs_abc123'' = Inr (Some (catMemory\<lparr>isValid := 0\<rparr>)) \<and>
   (\<exists>s'. delete forgottenStore ''mem_rs_abc123'' = Inr s' \<and> getById s' ''mem_rs_abc123'' = Inr None)"
proof -
  have h1: "storeInv forgottenStore" by (rule storeInv_forgottenStore)
  have h2: "dbOpens forgottenStore" by (simp add: forgottenStore_def)
  have h3: "idbGet ''mem_rs_abc123'' (memories forgottenStore) = Some (catMemory\<lparr>isValid := 0\<rparr>)"
    by (simp add: forgottenStore_def idbGet_def)
  have h4: "isValid (catMemory\<lparr>isValid := 0\<rparr>) \<noteq> 1" by simp
  show ?thesis
    using h1 h2 h3 h4
      invalidated_record_hidden [OF h1 h2 h3 h4, of examplePlatform 2000 "[0x63, 0x61, 0x74]" 10
        "''fact''" 20 10 10]
    by blast
qed


subsection \<open>update\<close>













subsection \<open>Validating an invalidated record again\<close>









lemma length_cursorPrev: "length (cursorPrev key db) = length db"
  by (simp add: cursorPrev_def cursorNext_def)












subsection \<open>cleanup_memories\<close>

lemma in_update_weak:
  "(a, b) \<in> set (AList.update k v al) \<Longrightarrow> (a = k \<and> b = v) \<or> (a, b) \<in> set al"
  by (induction al) (auto split: if_splits)

lemma contentMap_groups:
  assumes "(k, g) \<in> set (fold (addToGroup P) ms acc)"
    and "\<And>k g. (k, g) \<in> set acc \<Longrightarrow> set g \<subseteq> S" and "set ms \<subseteq> S"
  shows "set g \<subseteq> S"
  using assms
proof (induction ms arbitrary: acc)
  case Nil
  then show ?case by simp
next
  case (Cons m ms)
  have step: "\<And>k' g'. (k', g') \<in> set (addToGroup P m acc) \<Longrightarrow> set g' \<subseteq> S"
  proof -
    fix k' g' assume "(k', g') \<in> set (addToGroup P m acc)"
    then have "g' = (case map_of acc (normalizeContent P (content m)) of None \<Rightarrow> [] | Some g \<Rightarrow> g) @ [m]
               \<or> (k', g') \<in> set acc"
      unfolding addToGroup_def using in_update_weak by fastforce
    then show "set g' \<subseteq> S"
    proof
      assume g': "g' = (case map_of acc (normalizeContent P (content m)) of None \<Rightarrow> [] | Some g \<Rightarrow> g) @ [m]"
      have "m \<in> S" using Cons.prems(3) by simp
      moreover have "set (case map_of acc (normalizeContent P (content m)) of None \<Rightarrow> [] | Some g \<Rightarrow> g) \<subseteq> S"
      proof (cases "map_of acc (normalizeContent P (content m))")
        case None
        then show ?thesis by simp
      next
        case (Some old)
        then have "(normalizeContent P (content m), old) \<in> set acc" by (rule map_of_SomeD)
        then have "set old \<subseteq> S" by (rule Cons.prems(2))
        with Some show ?thesis by simp
      qed
      ultimately show ?thesis using g' by simp
    next
      assume "(k', g') \<in> set acc"
      then show ?thesis using Cons.prems(2) by blast
    qed
  qed
  show ?case
    using Cons.IH [of "addToGroup P m acc"] Cons.prems(1,3) step by simp
qed

lemma markGroup_ids: "itemId ` set (markGroup g) \<subseteq> memId ` set g"
proof -
  have "set (tl (sort_key (\<lambda>m. - importance m) g)) \<subseteq> set g"
    using list.set_sel(2) [of "sort_key (\<lambda>m. - importance m) g"]
    by (cases "sort_key (\<lambda>m. - importance m) g = []") auto
  then show ?thesis by (auto simp: markGroup_def removalItem_def)
qed

lemma findDuplicates_ids: "itemId ` set (findDuplicates P ms) \<subseteq> memId ` set ms"
proof
  fix i assume "i \<in> itemId ` set (findDuplicates P ms)"
  then obtain k g where g: "(k, g) \<in> set (contentMap P ms)" "i \<in> itemId ` set (markGroup g)"
    by (auto simp: findDuplicates_def)
  from g(1) have "set g \<subseteq> set ms"
    unfolding contentMap_def by (rule contentMap_groups) simp_all
  with g(2) markGroup_ids [of g] show "i \<in> memId ` set ms" by blast
qed

lemma findMore_items:
  "x \<in> set (findMore test why ms acc) \<Longrightarrow>
   x \<in> set acc \<or> (\<exists>m \<in> set ms. x = removalItem why m)"
proof (induction ms arbitrary: acc)
  case Nil
  then show ?case by simp
next
  case (Cons m ms)
  show ?case
  proof (cases "list_ex (\<lambda>r. itemId r = memId m) acc")
    case True
    with Cons.prems have "x \<in> set (findMore test why ms acc)" by simp
    from Cons.IH [OF this] show ?thesis by auto
  next
    case False
    show ?thesis
    proof (cases "test m")
      case True
      with False Cons.prems have "x \<in> set (findMore test why ms (acc @ [removalItem why m]))"
        by simp
      from Cons.IH [OF this] show ?thesis by auto
    next
      case f: False
      with False Cons.prems have "x \<in> set (findMore test why ms acc)" by simp
      from Cons.IH [OF this] show ?thesis by auto
    qed
  qed
qed

lemma findMore_ids:
  "itemId ` set (findMore test why ms acc) \<subseteq> itemId ` set acc \<union> memId ` set ms"
proof
  fix i assume "i \<in> itemId ` set (findMore test why ms acc)"
  then obtain x where x: "x \<in> set (findMore test why ms acc)" "i = itemId x" by auto
  from findMore_items [OF x(1)] x(2)
  show "i \<in> itemId ` set acc \<union> memId ` set ms"
    by (auto simp: removalItem_def)
qed

lemma findMore_within:
  assumes "itemId ` set acc \<subseteq> A" and "memId ` set ms \<subseteq> A"
  shows "itemId ` set (findMore test why ms acc) \<subseteq> A"
  using findMore_ids [of test why ms acc] assms by blast

lemma flagged_ids: "itemId ` set (flagged P st now ms) \<subseteq> memId ` set ms"
proof -
  define d where "d = (if st = ''duplicates'' \<or> st = ''all'' then findDuplicates P ms else [])"
  define ou where "ou = (if st = ''outdated'' \<or> st = ''all''
             then findMore (isOutdated now) OutdatedRarelyAccessed ms d else d)"
  define lo where "lo = (if st = ''low_importance'' \<or> st = ''all''
             then findMore isLowImportance LowImportanceContext ms ou else ou)"
  have d: "itemId ` set d \<subseteq> memId ` set ms"
    unfolding d_def using findDuplicates_ids [of P ms] by (cases "st = ''duplicates'' \<or> st = ''all''") simp_all
  have "itemId ` set (findMore (isOutdated now) OutdatedRarelyAccessed ms d) \<subseteq> memId ` set ms"
    using d by (rule findMore_within) simp
  with d have ou: "itemId ` set ou \<subseteq> memId ` set ms"
    unfolding ou_def by (cases "st = ''outdated'' \<or> st = ''all''") simp_all
  have "itemId ` set (findMore isLowImportance LowImportanceContext ms ou) \<subseteq> memId ` set ms"
    using ou by (rule findMore_within) simp
  with ou have lo: "itemId ` set lo \<subseteq> memId ` set ms"
    unfolding lo_def by (cases "st = ''low_importance'' \<or> st = ''all''") simp_all
  have "flagged P st now ms = lo"
    unfolding flagged_def lo_def ou_def d_def by simp
  with lo show ?thesis by simp
qed

lemma flagInvalid_absent: "ids \<inter> fst ` set db = {} \<Longrightarrow> flagInvalid ids db = db"
  unfolding flagInvalid_def by (induction db) auto

lemma update_flag:
  "distinct (map fst db) \<Longrightarrow> map_of db i = Some m \<Longrightarrow>
   AList.update i (m\<lparr>isValid := 0\<rparr>) db = flagInvalid {i} db"
proof (induction db)
  case Nil
  then show ?case by simp
next
  case (Cons p db)
  obtain k v where p: "p = (k, v)" by (cases p)
  show ?case
  proof (cases "k = i")
    case True
    with Cons.prems p have "{i} \<inter> fst ` set db = {}" "v = m" by auto
    with True p flagInvalid_absent [of "{i}" db] show ?thesis
      by (simp add: flagInvalid_def)
  next
    case False
    with Cons p show ?thesis by (simp add: flagInvalid_def)
  qed
qed

lemma flagInvalid_twice: "flagInvalid B (flagInvalid A db) = flagInvalid (A \<union> B) db"
  unfolding flagInvalid_def by (induction db) auto

lemma invalidate_memories:
  assumes "storeInv s" and "dbOpens s"
  shows "\<exists>s'. invalidate s i = Inr s' \<and> storeInv s' \<and> dbOpens s' \<and>
           memories s' = flagInvalid {i} (memories s)"
proof (cases "idbGet i (memories s)")
  case None
  then have "{i} \<inter> fst ` set (memories s) = {}"
    by (simp add: idbGet_def map_of_eq_None_iff)
  then have "flagInvalid {i} (memories s) = memories s" by (rule flagInvalid_absent)
  with None assms show ?thesis by (simp add: invalidate_def getDB_def)
next
  case (Some m)
  note db = storeInv_db [OF assms(1)]
  have get: "map_of (memories s) i = Some m" using Some by (simp add: idbGet_def)
  have id: "memId m = i" using key_of_record [of "memories s" i m] db get by simp
  let ?s' = "removeFromSearchIndex i (s\<lparr>memories := idbPut (m\<lparr>isValid := 0\<rparr>) (memories s)\<rparr>)"
  have inv: "invalidate s i = Inr ?s'"
    using assms(2) Some by (simp add: invalidate_def getDB_def)
  have "memories ?s' = AList.update i (m\<lparr>isValid := 0\<rparr>) (memories s)"
    using id by (simp add: removeFromSearchIndex_frame idbPut_def)
  then have "memories ?s' = flagInvalid {i} (memories s)"
    using update_flag [OF db [THEN conjunct1] get] by simp
  moreover have "dbOpens ?s'" using assms(2) by (simp add: removeFromSearchIndex_frame)
  moreover have "storeInv ?s'" using storeInv_invalidate [OF assms(1) inv] .
  ultimately show ?thesis using inv by blast
qed

lemma invalidateAll_memories:
  assumes "storeInv s" and "dbOpens s"
  shows "\<exists>s'. invalidateAll s items = (None, s') \<and> storeInv s' \<and> dbOpens s' \<and>
           memories s' = flagInvalid (itemId ` set items) (memories s)"
  using assms
proof (induction items arbitrary: s)
  case Nil
  have "flagInvalid {} (memories s) = memories s" by (rule flagInvalid_absent) simp
  with Nil show ?case by simp
next
  case (Cons item items)
  from invalidate_memories [OF Cons.prems, of "itemId item"] obtain s1 where
    s1: "invalidate s (itemId item) = Inr s1" "storeInv s1" "dbOpens s1"
        "memories s1 = flagInvalid {itemId item} (memories s)" by blast
  from Cons.IH [OF s1(2,3)] obtain s' where
    s': "invalidateAll s1 items = (None, s')" "storeInv s'" "dbOpens s'"
        "memories s' = flagInvalid (itemId ` set items) (memories s1)" by blast
  have "memories s' = flagInvalid (itemId ` set (item # items)) (memories s)"
    using s'(4) s1(4) by (simp add: flagInvalid_twice)
  with s1(1) s'(1,2,3) show ?case by simp
qed

lemma getRecent_valid:
  assumes "storeInv s" and "getRecent s n = Inr ms" and "m \<in> set ms"
  shows "idbGet (memId m) (memories s) = Some m \<and> isValid m = 1"
proof -
  note db = storeInv_db [OF assms(1)]
  from assms(2) have "ms = collectValid n [] (cursorPrev createdAt (memories s))"
    by (auto simp: getRecent_def getDB_def split: if_splits)
  with assms(3) collectValid_subset [of n "cursorPrev createdAt (memories s)"]
  have m: "m \<in> snd ` set (memories s)" "isValid m = 1"
    by (auto simp: cursor_records)
  then obtain k where k: "(k, m) \<in> set (memories s)" by auto
  with db have "memId m = k" by (auto simp: list_all_iff keyIsId_def)
  with k db have "map_of (memories s) (memId m) = Some m" by simp
  with m(2) show ?thesis by (simp add: idbGet_def)
qed


lemma toString36_2000: "toString36 2000 = ''1jk''"
  by (simp add: toString36_def toString36Nat.simps digit36_def)

lemma toString36_3000: "toString36 3000 = ''2bc''"
  by (simp add: toString36_def toString36Nat.simps digit36_def)

lemmas tokenizer_defs = extractKeywords_def chineseTokenizer_def examplePlatform_def
  isCJK_def isAlnum_def flush_def asciiLowerCase_def lowerUnit_def

lemmas store_defs = store_def getDB_def initSearchIndex_def validCursor_def
  cursorNext_def only_def idbAdd_def newMemory_def generateId_def envAt_def
  clampImportance_def addToSearchIndex_def likesStore_def freshSession_def

lemma store_likes1:
  "store examplePlatform (envAt 1000 ''aaaaaa'') (freshSession True []) likesCats
     ''preference'' (Some 5) None = Inr (likes1, likesStore [likes1])"
  by (simp add: store_defs tokenizer_defs toString36_1000 likes1_def likesCats_def)

lemma store_likes2:
  "store examplePlatform (envAt 2000 ''bbbbbb'') (likesStore [likes1]) (likesCats @ [0x21])
     ''preference'' (Some 9) None = Inr (likes2, likesStore [likes1, likes2])"
  by (simp add: store_defs tokenizer_defs toString36_2000 likes1_def likes2_def likesCats_def)

lemma store_likes3:
  "store examplePlatform (envAt 3000 ''cccccc'') (likesStore [likes1, likes2]) (likesCats @ [0x20])
     ''preference'' (Some 3) None = Inr (likes3, likesStore [likes1, likes2, likes3])"
  by (simp add: store_defs tokenizer_defs toString36_3000 likes1_def likes2_def likes3_def
      likesCats_def)

lemmas likes_defs = likes1_def likes2_def likes3_def likesCats_def

lemma getRecent_likes:
  "getRecent (likesStore [likes1, likes2, likes3]) 100 = Inr [likes3, likes2, likes1]"
  by (simp add: getRecent_def getDB_def likesStore_def cursorPrev_def cursorNext_def likes_defs)

lemma normalize_likes:
  "normalizeContent examplePlatform (content likes1) = likesCats"
  "normalizeContent examplePlatform (content likes2) = likesCats"
  "normalizeContent examplePlatform (content likes3) = likesCats"
  by (simp_all add: normalizeContent_def likes_defs examplePlatform_def asciiLowerCase_def
      lowerUnit_def isCJK_def isAlnum_def)

lemma contentMap_likes:
  "contentMap examplePlatform [likes3, likes2, likes1] = [(likesCats, [likes3, likes2, likes1])]"
  by (simp add: contentMap_def addToGroup_def normalize_likes)

lemma flagged_likes:
  "flagged examplePlatform ''duplicates'' now [likes3, likes2, likes1] =
     [removalItem DuplicateContent likes1, removalItem DuplicateContent likes3]"
  by (simp add: flagged_def findDuplicates_def contentMap_likes markGroup_def)
     (simp add: likes_defs)

lemma invalidate_likes1:
  "invalidate (likesStore [likes1, likes2, likes3]) ''mem_rs_aaaaaa'' =
     Inr (likesStore [likes1\<lparr>isValid := 0\<rparr>, likes2, likes3])"
  by (simp add: invalidate_def getDB_def likesStore_def idbGet_def idbPut_def
      removeFromSearchIndex_def likes_defs)

lemma invalidate_likes3:
  "invalidate (likesStore [likes1\<lparr>isValid := 0\<rparr>, likes2, likes3]) ''mem_2bc_cccccc'' =
     Inr (likesStore [likes1\<lparr>isValid := 0\<rparr>, likes2, likes3\<lparr>isValid := 0\<rparr>])"
  by (simp add: invalidate_def getDB_def likesStore_def idbGet_def idbPut_def
      removeFromSearchIndex_def likes_defs)

lemma cleanup_likes:
  "cleanupMemoriesTool examplePlatform 4000 (likesStore [likes1, likes2, likes3])
     \<lparr>argStrategy = Some ''duplicates'', argDryRun = Some False\<rparr> =
     (cleanupResult False [removalItem DuplicateContent likes1, removalItem DuplicateContent likes3],
      likesStore [likes1\<lparr>isValid := 0\<rparr>, likes2, likes3\<lparr>isValid := 0\<rparr>])"
proof -
  have ids: "itemId (removalItem DuplicateContent likes1) = ''mem_rs_aaaaaa''"
    "itemId (removalItem DuplicateContent likes3) = ''mem_2bc_cccccc''"
    by (simp_all add: removalItem_def likes_defs)
  show ?thesis
    by (simp add: cleanupMemoriesTool_def getRecent_likes flagged_likes ids
        invalidate_likes1 invalidate_likes3)
qed

lemma storeInv_likesStore: "storeInv (likesStore [likes1, likes2, likes3])"
  by (simp add: storeInv_def likesStore_def keyIsId_def cacheEntryOk_def indexEntryOk_def likes_defs)


text \<open>
  C5. On a consistent store whose database opens, for every strategy (also none, or a
  string that names no strategy): the dry run and the real run report the same list of
  flagged records, hence the same count; the dry run leaves the store as it is, and
  every flagged record is a valid record of it; after the real run the object store is
  the one before with the validity flag of exactly the flagged records set to 0.
\<close>

theorem cleanup_dry_run:
  assumes "storeInv s" and "dbOpens s"
  shows "\<exists>items sW.
           cleanupMemoriesTool P now s \<lparr>argStrategy = st, argDryRun = Some True\<rparr> =
             (cleanupResult True items, s) \<and>
           cleanupMemoriesTool P now s \<lparr>argStrategy = st, argDryRun = Some False\<rparr> =
             (cleanupResult False items, sW) \<and>
           (\<forall>r \<in> set items. \<exists>m. idbGet (itemId r) (memories s) = Some m \<and> isValid m = 1) \<and>
           memories sW = flagInvalid (itemId ` set items) (memories s)"
proof -
  obtain ms where ms: "getRecent s 100 = Inr ms"
    using assms(2) by (simp add: getRecent_def getDB_def)
  let ?items = "flagged P (case st of None \<Rightarrow> ''all'' | Some x \<Rightarrow> x) now ms"
  have dry: "cleanupMemoriesTool P now s \<lparr>argStrategy = st, argDryRun = Some True\<rparr> =
               (cleanupResult True ?items, s)"
    by (simp add: cleanupMemoriesTool_def ms)
  from invalidateAll_memories [OF assms, of ?items] obtain s' where
    s': "invalidateAll s ?items = (None, s')"
        "memories s' = flagInvalid (itemId ` set ?items) (memories s)" by blast
  have wet: "\<exists>sW. cleanupMemoriesTool P now s \<lparr>argStrategy = st, argDryRun = Some False\<rparr> =
               (cleanupResult False ?items, sW) \<and>
               memories sW = flagInvalid (itemId ` set ?items) (memories s)"
  proof (cases "?items = []")
    case True
    have "flagInvalid {} (memories s) = memories s" by (rule flagInvalid_absent) simp
    with True show ?thesis by (simp add: cleanupMemoriesTool_def ms)
  next
    case False
    with s' show ?thesis by (simp add: cleanupMemoriesTool_def ms)
  qed
  have valid: "\<forall>r \<in> set ?items. \<exists>m. idbGet (itemId r) (memories s) = Some m \<and> isValid m = 1"
  proof
    fix r assume "r \<in> set ?items"
    with flagged_ids [of P "case st of None \<Rightarrow> ''all'' | Some x \<Rightarrow> x" now ms]
    obtain m where "m \<in> set ms" "itemId r = memId m" by auto
    with getRecent_valid [OF assms(1) ms, of m]
    show "\<exists>m. idbGet (itemId r) (memories s) = Some m \<and> isValid m = 1" by auto
  qed
  show ?thesis using dry wet valid by blast
qed

theorem cleanup_dry_run_witness:
  "storeInv (likesStore [likes1, likes2, likes3]) \<and> dbOpens (likesStore [likes1, likes2, likes3]) \<and>
   (\<exists>items sW.
      cleanupMemoriesTool examplePlatform 4000 (likesStore [likes1, likes2, likes3])
        \<lparr>argStrategy = Some ''duplicates'', argDryRun = Some True\<rparr> =
        (cleanupResult True items, likesStore [likes1, likes2, likes3]) \<and>
      cleanupMemoriesTool examplePlatform 4000 (likesStore [likes1, likes2, likes3])
        \<lparr>argStrategy = Some ''duplicates'', argDryRun = Some False\<rparr> =
        (cleanupResult False items, sW) \<and>
      (\<forall>r \<in> set items. \<exists>m. idbGet (itemId r) (memories (likesStore [likes1, likes2, likes3])) = Some m \<and>
         isValid m = 1) \<and>
      memories sW =
        flagInvalid (itemId ` set items) (memories (likesStore [likes1, likes2, likes3])))"
proof -
  have h1: "storeInv (likesStore [likes1, likes2, likes3])" by (rule storeInv_likesStore)
  have h2: "dbOpens (likesStore [likes1, likes2, likes3])" by (simp add: likesStore_def)
  show ?thesis
    using h1 h2 cleanup_dry_run [OF h1 h2, of examplePlatform 4000 "Some ''duplicates''"] by blast
qed


subsection \<open>Three records with the same normalized content\<close>

lemma store_appends:
  assumes "dbOpens s" and "map_of (memories s) (generateId env) = None"
  shows "\<exists>s'. store P env s c cat imp meta = Inr (newMemory P env c cat imp meta, s') \<and>
           dbOpens s' \<and>
           memories s' = memories s @ [(generateId env, newMemory P env c cat imp meta)]"
proof -
  obtain s1 where s1: "initSearchIndex s = Inr s1"
    using initSearchIndex_ok [OF assms(1)] by blast
  have fr: "memories s1 = memories s" "dbOpens s1"
    using initSearchIndex_frame [OF s1] assms(1) by simp_all
  let ?m = "newMemory P env c cat imp meta"
  have id: "memId ?m = generateId env" by (simp add: newMemory_def)
  have add: "idbAdd ?m (memories s1) = Some (memories s @ [(generateId env, ?m)])"
    using assms(2) by (simp add: idbAdd_def fr id)
  let ?s' = "addToSearchIndex ?m (s1\<lparr>memories := memories s @ [(generateId env, ?m)]\<rparr>)"
  have st: "store P env s c cat imp meta = Inr (?m, ?s')"
    using assms(1) by (simp add: store_def getDB_def s1 add)
  have "dbOpens ?s'" "memories ?s' = memories s @ [(generateId env, ?m)]"
    using fr by (simp_all add: addToSearchIndex_frame)
  with st show ?thesis by blast
qed

lemma fold_addToGroup_same:
  assumes "\<forall>m \<in> set ms. normalizeContent P (content m) = k"
  shows "fold (addToGroup P) ms [(k, g)] = [(k, g @ ms)]"
  using assms by (induction ms arbitrary: g) (simp_all add: addToGroup_def)

lemma contentMap_same:
  assumes "\<forall>m \<in> set ms. normalizeContent P (content m) = k" and "ms \<noteq> []"
  shows "contentMap P ms = [(k, ms)]"
proof -
  from assms(2) obtain m rest where ms: "ms = m # rest" by (cases ms) auto
  with assms(1) have m: "normalizeContent P (content m) = k"
    and rest: "\<forall>x \<in> set rest. normalizeContent P (content x) = k" by simp_all
  have "contentMap P ms = fold (addToGroup P) rest [(k, [m])]"
    by (simp add: contentMap_def ms addToGroup_def m)
  also have "\<dots> = [(k, [m] @ rest)]" using rest by (rule fold_addToGroup_same)
  finally show ?thesis by (simp add: ms)
qed

lemma sort_key_three:
  fixes f :: "'a \<Rightarrow> int"
  assumes "set ms = {a, b, c}" and "length ms = 3" and "f b < f a" and "f a < f c"
  shows "sort_key f ms = [b, a, c]"
proof -
  let ?ys = "sort_key f ms"
  have len: "length (map f ?ys) = 3" using assms(2) by simp
  have st: "set (map f ?ys) = {f b, f a, f c}" using assms(1) by auto
  have "card (set (map f ?ys)) = 3" unfolding st using assms(3,4) by simp
  with len have "distinct (map f ?ys)" by (simp add: card_distinct)
  moreover have "sorted (map f ?ys)" by simp
  moreover have "sorted [f b, f a, f c]" "distinct [f b, f a, f c]" using assms(3,4) by auto
  moreover have "set (map f ?ys) = set [f b, f a, f c]" using st by simp
  ultimately have keys: "map f ?ys = [f b, f a, f c]" by (intro sorted_distinct_set_unique)
  then obtain y1 y2 y3 where ys: "?ys = [y1, y2, y3]" by auto
  have "y1 \<in> set ?ys" "y2 \<in> set ?ys" "y3 \<in> set ?ys" by (simp_all add: ys)
  then have mem: "y1 \<in> {a, b, c}" "y2 \<in> {a, b, c}" "y3 \<in> {a, b, c}"
    by (simp_all only: set_sort assms(1))
  from keys have k: "f y1 = f b" "f y2 = f a" "f y3 = f c" unfolding ys by simp_all
  have "y1 = b" using mem(1) k(1) assms(3,4) by auto
  moreover have "y2 = a" using mem(2) k(2) assms(3,4) by auto
  moreover have "y3 = c" using mem(3) k(3) assms(3,4) by auto
  ultimately show ?thesis using ys by simp
qed


lemma getRecent_three:
  assumes "dbOpens s" and "memories s = [(i1, m1), (i2, m2), (i3, m3)]"
    and "isValid m1 = 1" and "isValid m2 = 1" and "isValid m3 = 1"
  shows "\<exists>ms. getRecent s 100 = Inr ms \<and> set ms = {m1, m2, m3} \<and> length ms = 3"
proof -
  let ?cur = "cursorPrev createdAt (memories s)"
  have st: "set ?cur = {m1, m2, m3}" by (simp add: cursor_records assms(2))
  have len: "length ?cur = 3" by (simp add: length_cursorPrev assms(2))
  have "filter (\<lambda>m. isValid m = 1) ?cur = ?cur"
    using st assms(3-5) by (intro filter_True) auto
  then have "collectValid 100 [] ?cur = ?cur"
    using len by (simp add: collectValid_eq)
  then have "getRecent s 100 = Inr ?cur"
    using assms(1) by (simp add: getRecent_def getDB_def)
  with st len show ?thesis by blast
qed

lemma findDuplicates_three:
  assumes "set ms = {m1, m2, m3}" and "length ms = 3"
    and "normalizeContent P (content m1) = normalizeContent P (content m2)"
    and "normalizeContent P (content m2) = normalizeContent P (content m3)"
    and "importance m1 < importance m2" and "importance m3 < importance m1"
  shows "flagged P ''duplicates'' now ms =
           [removalItem DuplicateContent m1, removalItem DuplicateContent m3]"
proof -
  have ne: "ms \<noteq> []" using assms(2) by auto
  have "\<forall>m \<in> set ms. normalizeContent P (content m) = normalizeContent P (content m1)"
    using assms(1,3,4) by auto
  then have cm: "contentMap P ms = [(normalizeContent P (content m1), ms)]"
    using ne by (rule contentMap_same)
  have srt: "sort_key (\<lambda>m. - importance m) ms = [m2, m1, m3]"
    using assms(1,2,5,6) by (intro sort_key_three) auto
  show ?thesis
    by (simp add: flagged_def findDuplicates_def cm markGroup_def assms(2) srt)
qed


text \<open>
  C6. Scenario A. From a consistent store whose database opens and is empty, on any
  platform, for any three contents with the same normalized content, any categories and
  metadata, and any readings of the clock and the random source that give three
  different ids: the three \<open>store\<close> calls at importances 5, 9 and 3 succeed and give
  valid records of these importances; \<open>cleanup_memories\<close> with the strategy
  \<open>duplicates\<close> and \<open>dryRun = false\<close>, at any time, reports the records of importance 5
  and 3 and no other; afterwards the database holds the three records, the two of
  importance 5 and 3 with the validity flag 0 and otherwise as stored, the one of
  importance 9 as stored, hence valid, and \<open>getCount\<close> is 1.
\<close>

theorem duplicates_scenario:
  assumes "storeInv s0" and "dbOpens s0" and "memories s0 = []"
    and "normalizeContent P c1 = normalizeContent P c2"
    and "normalizeContent P c2 = normalizeContent P c3"
    and "distinct [generateId e1, generateId e2, generateId e3]"
  shows "\<exists>m1 s1 m2 s2 m3 s3 sF.
           store P e1 s0 c1 cat1 (Some 5) md1 = Inr (m1, s1) \<and>
           store P e2 s1 c2 cat2 (Some 9) md2 = Inr (m2, s2) \<and>
           store P e3 s2 c3 cat3 (Some 3) md3 = Inr (m3, s3) \<and>
           importance m1 = 5 \<and> importance m2 = 9 \<and> importance m3 = 3 \<and>
           isValid m1 = 1 \<and> isValid m2 = 1 \<and> isValid m3 = 1 \<and>
           cleanupMemoriesTool P now s3 \<lparr>argStrategy = Some ''duplicates'', argDryRun = Some False\<rparr> =
             (cleanupResult False
                [removalItem DuplicateContent m1, removalItem DuplicateContent m3], sF) \<and>
           memories sF =
             [(memId m1, m1\<lparr>isValid := 0\<rparr>), (memId m2, m2), (memId m3, m3\<lparr>isValid := 0\<rparr>)] \<and>
           getById sF (memId m1) = Inr (Some (m1\<lparr>isValid := 0\<rparr>)) \<and>
           getById sF (memId m2) = Inr (Some m2) \<and>
           getById sF (memId m3) = Inr (Some (m3\<lparr>isValid := 0\<rparr>)) \<and>
           getCount sF = Inr 1"
proof -
  let ?m1 = "newMemory P e1 c1 cat1 (Some 5) md1"
  let ?m2 = "newMemory P e2 c2 cat2 (Some 9) md2"
  let ?m3 = "newMemory P e3 c3 cat3 (Some 3) md3"
  have ids: "memId ?m1 = generateId e1" "memId ?m2 = generateId e2" "memId ?m3 = generateId e3"
    by (simp_all add: newMemory_def)
  have d: "generateId e1 \<noteq> generateId e2" "generateId e1 \<noteq> generateId e3"
    "generateId e2 \<noteq> generateId e3"
    using assms(6) by simp_all
  from store_appends [OF assms(2), of e1 P c1 cat1 "Some 5" md1] assms(3)
  obtain s1 where s1: "store P e1 s0 c1 cat1 (Some 5) md1 = Inr (?m1, s1)" "dbOpens s1"
    "memories s1 = [(generateId e1, ?m1)]" by auto
  have f2: "map_of (memories s1) (generateId e2) = None" using d by (simp add: s1(3))
  from store_appends [OF s1(2) f2, of P c2 cat2 "Some 9" md2]
  obtain s2 where s2: "store P e2 s1 c2 cat2 (Some 9) md2 = Inr (?m2, s2)" "dbOpens s2"
    "memories s2 = [(generateId e1, ?m1), (generateId e2, ?m2)]" by (auto simp: s1(3))
  have f3: "map_of (memories s2) (generateId e3) = None" using d by (simp add: s2(3))
  from store_appends [OF s2(2) f3, of P c3 cat3 "Some 3" md3]
  obtain s3 where s3: "store P e3 s2 c3 cat3 (Some 3) md3 = Inr (?m3, s3)" "dbOpens s3"
    "memories s3 = [(generateId e1, ?m1), (generateId e2, ?m2), (generateId e3, ?m3)]"
    by (auto simp: s2(3))
  have inv: "storeInv s3"
    using storeInv_store [OF storeInv_store [OF storeInv_store [OF assms(1) s1(1)] s2(1)] s3(1)] .
  have imp: "importance ?m1 = 5" "importance ?m2 = 9" "importance ?m3 = 3"
    by (simp_all add: newMemory_def clampImportance_def)
  have val: "isValid ?m1 = 1" "isValid ?m2 = 1" "isValid ?m3 = 1"
    by (simp_all add: newMemory_def)
  have cont: "content ?m1 = c1" "content ?m2 = c2" "content ?m3 = c3"
    by (simp_all add: newMemory_def)
  from getRecent_three [OF s3(2,3) val]
  obtain ms where ms: "getRecent s3 100 = Inr ms" "set ms = {?m1, ?m2, ?m3}" "length ms = 3"
    by blast
  define items where
    "items = [removalItem DuplicateContent ?m1, removalItem DuplicateContent ?m3]"
  have fl: "flagged P ''duplicates'' now ms = items"
    using findDuplicates_three [OF ms(2,3), of P now] assms(4,5)
    by (simp add: cont imp items_def)
  have ne: "items \<noteq> []" by (simp add: items_def)
  have iid: "itemId ` set items = {generateId e1, generateId e3}"
    by (simp add: items_def removalItem_def ids)
  from invalidateAll_memories [OF inv s3(2), of items]
  obtain sF where sF: "invalidateAll s3 items = (None, sF)" "dbOpens sF"
    "memories sF = flagInvalid {generateId e1, generateId e3} (memories s3)"
    unfolding iid by blast
  have "cleanupMemoriesTool P now s3 \<lparr>argStrategy = Some ''duplicates'', argDryRun = Some False\<rparr> =
          (cleanupResult False items, sF)"
    by (simp add: cleanupMemoriesTool_def ms(1) fl sF(1) ne)
  then have tool:
    "cleanupMemoriesTool P now s3 \<lparr>argStrategy = Some ''duplicates'', argDryRun = Some False\<rparr> =
       (cleanupResult False
          [removalItem DuplicateContent ?m1, removalItem DuplicateContent ?m3], sF)"
    unfolding items_def .
  have mem: "memories sF =
     [(memId ?m1, ?m1\<lparr>isValid := 0\<rparr>), (memId ?m2, ?m2), (memId ?m3, ?m3\<lparr>isValid := 0\<rparr>)]"
    using d by (simp add: sF(3) s3(3) flagInvalid_def ids)
  have g1: "getById sF (memId ?m1) = Inr (Some (?m1\<lparr>isValid := 0\<rparr>))"
    using sF(2) by (simp add: getById_def getDB_def idbGet_def mem)
  have g2: "getById sF (memId ?m2) = Inr (Some ?m2)"
    using sF(2) d by (simp add: getById_def getDB_def idbGet_def mem ids)
  have g3: "getById sF (memId ?m3) = Inr (Some (?m3\<lparr>isValid := 0\<rparr>))"
    using sF(2) d by (simp add: getById_def getDB_def idbGet_def mem ids)
  have cnt: "getCount sF = Inr 1"
    using sF(2) by (simp add: getCount_def getDB_def only_def mem val)
  show ?thesis
    using s1(1) s2(1) s3(1) imp val tool mem g1 g2 g3 cnt by blast
qed

theorem duplicates_scenario_witness:
  "storeInv (freshSession True []) \<and> dbOpens (freshSession True []) \<and>
   memories (freshSession True []) = [] \<and>
   normalizeContent examplePlatform likesCats = [0x559C, 0x6B22, 0x732B] \<and>
   normalizeContent examplePlatform (likesCats @ [0x21]) = [0x559C, 0x6B22, 0x732B] \<and>
   normalizeContent examplePlatform (likesCats @ [0x20]) = [0x559C, 0x6B22, 0x732B] \<and>
   distinct [generateId (envAt 1000 ''aaaaaa''), generateId (envAt 2000 ''bbbbbb''),
             generateId (envAt 3000 ''cccccc'')] \<and>
   store examplePlatform (envAt 1000 ''aaaaaa'') (freshSession True []) likesCats
     ''preference'' (Some 5) None = Inr (likes1, likesStore [likes1]) \<and>
   store examplePlatform (envAt 2000 ''bbbbbb'') (likesStore [likes1]) (likesCats @ [0x21])
     ''preference'' (Some 9) None = Inr (likes2, likesStore [likes1, likes2]) \<and>
   store examplePlatform (envAt 3000 ''cccccc'') (likesStore [likes1, likes2]) (likesCats @ [0x20])
     ''preference'' (Some 3) None = Inr (likes3, likesStore [likes1, likes2, likes3]) \<and>
   importance likes1 = 5 \<and> importance likes2 = 9 \<and> importance likes3 = 3 \<and>
   cleanupMemoriesTool examplePlatform 4000 (likesStore [likes1, likes2, likes3])
     \<lparr>argStrategy = Some ''duplicates'', argDryRun = Some False\<rparr> =
     (cleanupResult False
        [removalItem DuplicateContent likes1, removalItem DuplicateContent likes3],
      likesStore [likes1\<lparr>isValid := 0\<rparr>, likes2, likes3\<lparr>isValid := 0\<rparr>]) \<and>
   memories (likesStore [likes1\<lparr>isValid := 0\<rparr>, likes2, likes3\<lparr>isValid := 0\<rparr>]) =
     [(''mem_rs_aaaaaa'', likes1\<lparr>isValid := 0\<rparr>), (''mem_1jk_bbbbbb'', likes2),
      (''mem_2bc_cccccc'', likes3\<lparr>isValid := 0\<rparr>)] \<and>
   getById (likesStore [likes1\<lparr>isValid := 0\<rparr>, likes2, likes3\<lparr>isValid := 0\<rparr>]) ''mem_rs_aaaaaa'' =
     Inr (Some (likes1\<lparr>isValid := 0\<rparr>)) \<and>
   getById (likesStore [likes1\<lparr>isValid := 0\<rparr>, likes2, likes3\<lparr>isValid := 0\<rparr>]) ''mem_1jk_bbbbbb'' =
     Inr (Some likes2) \<and>
   isValid likes2 = 1 \<and>
   getById (likesStore [likes1\<lparr>isValid := 0\<rparr>, likes2, likes3\<lparr>isValid := 0\<rparr>]) ''mem_2bc_cccccc'' =
     Inr (Some (likes3\<lparr>isValid := 0\<rparr>)) \<and>
   getCount (likesStore [likes1\<lparr>isValid := 0\<rparr>, likes2, likes3\<lparr>isValid := 0\<rparr>]) = Inr 1"
proof -
  have h1: "storeInv (freshSession True [])" by (simp add: storeInv_fresh)
  have h2: "dbOpens (freshSession True [])" by (simp add: freshSession_def)
  have h3: "memories (freshSession True []) = []" by (simp add: freshSession_def)
  have n: "normalizeContent examplePlatform likesCats = [0x559C, 0x6B22, 0x732B]"
    "normalizeContent examplePlatform (likesCats @ [0x21]) = [0x559C, 0x6B22, 0x732B]"
    "normalizeContent examplePlatform (likesCats @ [0x20]) = [0x559C, 0x6B22, 0x732B]"
    by (simp_all add: normalizeContent_def likesCats_def examplePlatform_def asciiLowerCase_def
        lowerUnit_def isCJK_def isAlnum_def)
  have h4: "normalizeContent examplePlatform likesCats =
            normalizeContent examplePlatform (likesCats @ [0x21])" by (simp only: n)
  have h5: "normalizeContent examplePlatform (likesCats @ [0x21]) =
            normalizeContent examplePlatform (likesCats @ [0x20])" by (simp only: n)
  have h6: "distinct [generateId (envAt 1000 ''aaaaaa''), generateId (envAt 2000 ''bbbbbb''),
                      generateId (envAt 3000 ''cccccc'')]"
    by (simp add: generateId_def envAt_def toString36_1000 toString36_2000 toString36_3000)
  have ids: "memId likes1 = ''mem_rs_aaaaaa''" "memId likes2 = ''mem_1jk_bbbbbb''"
    "memId likes3 = ''mem_2bc_cccccc''" by (simp_all add: likes_defs)
  have imp: "importance likes1 = 5" "importance likes2 = 9" "importance likes3 = 3"
    "isValid likes2 = 1" by (simp_all add: likes_defs)
  from duplicates_scenario [OF h1 h2 h3 h4 h5 h6,
      of "''preference''" None "''preference''" None "''preference''" None 4000]
  obtain m1 s1 m2 s2 m3 s3 sF where
    r: "store examplePlatform (envAt 1000 ''aaaaaa'') (freshSession True []) likesCats
          ''preference'' (Some 5) None = Inr (m1, s1)"
       "store examplePlatform (envAt 2000 ''bbbbbb'') s1 (likesCats @ [0x21])
          ''preference'' (Some 9) None = Inr (m2, s2)"
       "store examplePlatform (envAt 3000 ''cccccc'') s2 (likesCats @ [0x20])
          ''preference'' (Some 3) None = Inr (m3, s3)"
       "cleanupMemoriesTool examplePlatform 4000 s3
          \<lparr>argStrategy = Some ''duplicates'', argDryRun = Some False\<rparr> =
          (cleanupResult False
             [removalItem DuplicateContent m1, removalItem DuplicateContent m3], sF)"
       "memories sF =
          [(memId m1, m1\<lparr>isValid := 0\<rparr>), (memId m2, m2), (memId m3, m3\<lparr>isValid := 0\<rparr>)]"
       "getById sF (memId m1) = Inr (Some (m1\<lparr>isValid := 0\<rparr>))"
       "getById sF (memId m2) = Inr (Some m2)"
       "getById sF (memId m3) = Inr (Some (m3\<lparr>isValid := 0\<rparr>))"
       "getCount sF = Inr 1"
    by blast
  from r(1) have e1: "m1 = likes1" "s1 = likesStore [likes1]" by (simp_all add: store_likes1)
  from r(2) have e2: "m2 = likes2" "s2 = likesStore [likes1, likes2]"
    unfolding e1 by (simp_all add: store_likes2)
  from r(3) have e3: "m3 = likes3" "s3 = likesStore [likes1, likes2, likes3]"
    unfolding e2 by (simp_all add: store_likes3)
  from r(4) have eF: "sF = likesStore [likes1\<lparr>isValid := 0\<rparr>, likes2, likes3\<lparr>isValid := 0\<rparr>]"
    unfolding e1 e2 e3 by (simp add: cleanup_likes)
  note t = r(4-9) [unfolded e1 e2 e3 eF ids]
  show ?thesis
    using h1 h2 h3 n h6 store_likes1 store_likes2 store_likes3 imp t by blast
qed


subsection \<open>recall_memory and the category enumeration\<close>

text \<open>
  C1. \<open>recall_memory\<close> with the category \<open>mood\<close>, which is none of the five: the tool
  does not check the category. It asks the store for the records of that category
  (\<open>getByCategory\<close>), finds none and answers with a success and an empty list; when the
  database does not open, the answer is the store's failure, which shows that the store
  was reached. \<open>store_memory\<close>, given the same category, rejects it before it touches
  the store.
\<close>

theorem recall_unknown_category_reaches_store:
  "''mood'' \<notin> set validCategories \<and>
   recallMemoryTool examplePlatform 2000 catStore catMood =
     (\<lparr>resultName = ''recall_memory'', output' = OutRecalled [] 0, message = MsgRecallNone\<rparr>,
      catStore) \<and>
   recallMemoryTool examplePlatform 2000 (catStore\<lparr>dbOpens := False\<rparr>) catMood =
     (\<lparr>resultName = ''recall_memory'', output' = OutFailure ''Failed to open IndexedDB'',
       message = MsgRecallFailed\<rparr>, catStore\<lparr>dbOpens := False\<rparr>) \<and>
   storeMemoryTool examplePlatform (envAt 2000 ''bbbbbb'') (catStore\<lparr>dbOpens := False\<rparr>) storeMood =
     (\<lparr>resultName = ''store_memory'',
       output' = OutFailure
         ''Invalid category. Must be one of: fact, preference, event, correction, context'',
       message = MsgStoreInvalidCategory\<rparr>, catStore\<lparr>dbOpens := False\<rparr>)"
  by (simp add: recallMemoryTool_def storeMemoryTool_def catMood_def storeMood_def missing_def
      validCategories_def getByCategory_def getDB_def catStore_def only_def cursorPrev_def
      cursorNext_def catMemory_def slice0_def recallFound_def recallResult_def
      recallFailure_def errorMessage_def)


subsection \<open>run\<close>





lemma runLoop_tools_only:
  assumes "iterations < maxRec"
    and "sendChat deps calls (buildMessagesForAPI sp (history st)) = Response (Some am)"
    and "contentOf (amContent am) = []" and "rawToolCallsOf am \<noteq> []"
    and "executeToolCalls deps registry 0 (map (toRequest deps) (rawToolCallsOf am)) (memoryLog st) w
           = (results, log, w')"
  shows "runLoop deps registry sp maxRec iterations calls st w fc raw =
         runLoop deps registry sp maxRec (iterations + 1) (Suc calls)
           (st\<lparr>history := history st @ assistantCallMsg [] (rawToolCallsOf am)
                            # map (toolResultMsg deps) results,
               memoryLog := fold (addMemory (clock deps)) (resultEntries results) log\<rparr>)
           w' fc (Some (Some am))"
  by (subst runLoop.simps) (simp add: assms normalizeAssistantMessage_def)








subsection \<open>Two runs that leave the example history\<close>

text \<open>
  An agent with \<open>maxContextMessages = 1\<close>, a registered tool and a model that asks for the
  tool before it answers the first question: after two calls of \<open>run\<close> its history is
  \<open>exampleHistory\<close>, the history that the next call of \<open>run\<close> trims.
\<close>

lemma runLoop_content_only:
  assumes "iterations < maxRec"
    and "sendChat deps calls (buildMessagesForAPI sp (history st)) = Response (Some am)"
    and "contentOf (amContent am) \<noteq> []" and "rawToolCallsOf am = []"
  shows "runLoop deps registry sp maxRec iterations calls st w fc raw =
         (Returned (contentOf (amContent am)) (Some (Some am)),
          st\<lparr>history := history st @ [assistantMsg (contentOf (amContent am))]\<rparr>, w, Suc calls)"
  by (subst runLoop.simps) (simp add: assms normalizeAssistantMessage_def)

lemmas msg_defs = userMsg_def assistantMsg_def systemMsg_def assistantCallMsg_def toolMsg_def

lemma scripted_fields:
  "parseJson scriptedDeps = (\<lambda>t. Some ())" "isObject scriptedDeps = (\<lambda>out. True)"
  "clock scriptedDeps = 0" "idReading scriptedDeps = (\<lambda>k. (0, ''r''))"
  "memoryInstructions scriptedDeps = []"
  "relevantMemories scriptedDeps = (\<lambda>input limit w. (Some [], w))"
  by (simp_all add: scriptedDeps_def exampleDeps_def)

lemma scripted_send:
  "msgs \<noteq> [] \<Longrightarrow> \<not> list_ex lacksCallId msgs \<Longrightarrow>
   sendChat scriptedDeps n msgs =
     (if role (last msgs) = Tool then Response (Some (textReply [0x62]))
      else if msgContent (last msgs) = [0x61] then Response (Some toolOnlyReply)
      else Response (Some (textReply [0x64])))"
  by (simp add: sendChat_def scriptedDeps_def)

lemma executeToolCalls_scripted:
  "executeToolCalls scriptedDeps exampleRegistry 0
     (map (toRequest scriptedDeps) (rawToolCallsOf toolOnlyReply)) [] () = ([exampleResult], [], ())"
  by (simp add: rawToolCallsOf_def toolOnlyReply_def toRequest_def recallCall_def
      parseArguments_def executeToolCall_def exampleRegistry_def exampleTool_def scripted_fields
      callIdOf_def exampleResult_def)

lemma first_run:
  "run scriptedDeps smallConfig exampleRegistry emptyAgent () [0x61] \<lparr>optMaxRecursions = None\<rparr> =
     (Returned [0x62] (Some (Some (textReply [0x62]))),
      \<lparr>history = [userMsg [0x61], assistantCallMsg [] [recallCall],
                  toolMsg [0x6F, 0x6B] ''recall_memory'' (Some ''call_1''), assistantMsg [0x62]],
        memoryLog = [], injectedMemories = []\<rparr>, (), 2)"
proof -
  let ?sp = "buildSystemPrompt scriptedDeps smallConfig []"
  let ?st1 = "\<lparr>history = [userMsg [0x61]], memoryLog = [], injectedMemories = []\<rparr>"
  let ?st2 = "\<lparr>history = [userMsg [0x61], assistantCallMsg [] [recallCall],
                  toolMsg [0x6F, 0x6B] ''recall_memory'' (Some ''call_1'')],
               memoryLog = [], injectedMemories = []\<rparr>"
  have prep: "prepare scriptedDeps smallConfig emptyAgent () [0x61] = (?st1, ())"
    by (simp add: prepare_def injectMemories_def scripted_fields smallConfig_def exampleConfig_def emptyAgent_def
        trimHistory_def turns_def)
  have s0: "sendChat scriptedDeps 0 (buildMessagesForAPI ?sp (history ?st1)) =
              Response (Some toolOnlyReply)"
    by (subst scripted_send) (simp_all add: buildMessagesForAPI_def msg_defs lacksCallId_def)
  have l1: "runLoop scriptedDeps exampleRegistry ?sp 3 0 0 ?st1 () [] None =
            runLoop scriptedDeps exampleRegistry ?sp 3 (0 + 1) (Suc 0)
              (?st1\<lparr>history := history ?st1 @ assistantCallMsg [] (rawToolCallsOf toolOnlyReply)
                               # map (toolResultMsg scriptedDeps) [exampleResult],
                    memoryLog := fold (addMemory (clock scriptedDeps)) (resultEntries [exampleResult]) []\<rparr>)
              () [] (Some (Some toolOnlyReply))"
    by (rule runLoop_tools_only)
      (use s0 executeToolCalls_scripted in
        \<open>simp_all add: contentOf_def toolOnlyReply_def rawToolCallsOf_def\<close>)
  have st2: "?st1\<lparr>history := history ?st1 @ assistantCallMsg [] (rawToolCallsOf toolOnlyReply)
                               # map (toolResultMsg scriptedDeps) [exampleResult],
                    memoryLog := fold (addMemory (clock scriptedDeps)) (resultEntries [exampleResult]) []\<rparr>
             = ?st2"
    by (simp add: rawToolCallsOf_def toolOnlyReply_def toolResultMsg_def toolContent_def
        exampleResult_def resultEntries_def)
  have s1: "sendChat scriptedDeps (Suc 0) (buildMessagesForAPI ?sp (history ?st2)) =
              Response (Some (textReply [0x62]))"
    by (subst scripted_send) (simp_all add: buildMessagesForAPI_def msg_defs lacksCallId_def missing_def)
  have l2: "runLoop scriptedDeps exampleRegistry ?sp 3 (0 + 1) (Suc 0) ?st2 () []
              (Some (Some toolOnlyReply)) =
            (Returned (contentOf (amContent (textReply [0x62]))) (Some (Some (textReply [0x62]))),
             ?st2\<lparr>history := history ?st2 @ [assistantMsg (contentOf (amContent (textReply [0x62])))]\<rparr>,
             (), Suc (Suc 0))"
    by (rule runLoop_content_only)
      (use s1 in \<open>simp_all add: contentOf_def textReply_def rawToolCallsOf_def\<close>)
  show ?thesis
    unfolding run_def prep
    using l1 l2 unfolding st2
    by (simp add: smallConfig_def exampleConfig_def contentOf_def textReply_def)
qed


lemma second_run:
  "run scriptedDeps smallConfig exampleRegistry
     \<lparr>history = [userMsg [0x61], assistantCallMsg [] [recallCall],
                 toolMsg [0x6F, 0x6B] ''recall_memory'' (Some ''call_1''), assistantMsg [0x62]],
       memoryLog = [], injectedMemories = []\<rparr> () [0x63] \<lparr>optMaxRecursions = None\<rparr> =
     (Returned [0x64] (Some (Some (textReply [0x64]))),
      \<lparr>history = exampleHistory, memoryLog = [], injectedMemories = []\<rparr>, (), 1)"
proof -
  let ?sp = "buildSystemPrompt scriptedDeps smallConfig []"
  let ?st0 = "\<lparr>history = [userMsg [0x61], assistantCallMsg [] [recallCall],
                 toolMsg [0x6F, 0x6B] ''recall_memory'' (Some ''call_1''), assistantMsg [0x62]],
       memoryLog = [], injectedMemories = []\<rparr>"
  let ?st1 = "\<lparr>history = [userMsg [0x61], assistantCallMsg [] [recallCall],
                 toolMsg [0x6F, 0x6B] ''recall_memory'' (Some ''call_1''), assistantMsg [0x62],
                 userMsg [0x63]],
       memoryLog = [], injectedMemories = []\<rparr>"
  have prep: "prepare scriptedDeps smallConfig ?st0 () [0x63] = (?st1, ())"
    by (simp add: prepare_def injectMemories_def scripted_fields smallConfig_def exampleConfig_def
        trimHistory_def turns_def isConversation_def msg_defs)
  have s0: "sendChat scriptedDeps 0 (buildMessagesForAPI ?sp (history ?st1)) =
              Response (Some (textReply [0x64]))"
    by (subst scripted_send) (simp_all add: buildMessagesForAPI_def msg_defs lacksCallId_def missing_def)
  have l: "runLoop scriptedDeps exampleRegistry ?sp 3 0 0 ?st1 () [] None =
            (Returned (contentOf (amContent (textReply [0x64]))) (Some (Some (textReply [0x64]))),
             ?st1\<lparr>history := history ?st1 @ [assistantMsg (contentOf (amContent (textReply [0x64])))]\<rparr>,
             (), Suc 0)"
    by (rule runLoop_content_only)
      (use s0 in \<open>simp_all add: contentOf_def textReply_def rawToolCallsOf_def\<close>)
  show ?thesis
    unfolding run_def prep
    using l
    by (simp add: smallConfig_def exampleConfig_def contentOf_def textReply_def exampleHistory_def)
qed

end
